theory Spec2Isabelle
  imports Complex_Main
begin

section \<open>Data model\<close>

text \<open>
  The bandit service (\<^verbatim>\<open>services/banditService.js\<close>) keeps one document per chat in the
  \<^verbatim>\<open>BanditChatState\<close> collection. Identifiers (Mongo ObjectIds, arm ids) are strings.
  The counters \<^verbatim>\<open>alpha\<close>, \<^verbatim>\<open>beta\<close> and \<^verbatim>\<open>pulls\<close> are JavaScript numbers that the service
  only ever initialises to 1, 1, 0 and increments by 1; they are modelled as integers.
  Record fields keep the names of the source; where two records share a field name the
  selector is written qualified (\<open>ArmConfig.armId\<close>, \<open>ArmStats.armId\<close>).
\<close>

type_synonym oid = string

record ArmConfig =
  armId :: string
  stage :: string
  modelName :: string
  "notes" :: string
  temperature :: real

record ArmStats =
  armId :: string
  alpha :: int
  beta :: int
  pulls :: int

text \<open>
  The registry \<^verbatim>\<open>ARMS\<close>. Its argument is the environment variable \<^verbatim>\<open>GEMINI_MODEL\<close>
  (\<open>None\<close> when unset); \<^verbatim>\<open>process.env.GEMINI_MODEL || "gemini-2.5-flash"\<close> falls back to
  the default for an unset or empty value.
\<close>

definition geminiModel :: "string option \<Rightarrow> string" where
  "geminiModel env =
     (case env of
        None \<Rightarrow> ''gemini-2.5-flash''
      | Some s \<Rightarrow> if s = [] then ''gemini-2.5-flash'' else s)"

definition ARMS :: "string option \<Rightarrow> ArmConfig list" where
  "ARMS env =
     [\<lparr>ArmConfig.armId = ''unified_base'', stage = ''unified'',
       modelName = geminiModel env, notes = ''Base unified prompt'',
       temperature = 1 / 10\<rparr>,
      \<lparr>ArmConfig.armId = ''unified_strict_json'', stage = ''unified'',
       modelName = geminiModel env, notes = ''Stricter JSON-only response'',
       temperature = 5 / 100\<rparr>]"

text \<open>
  The \<^verbatim>\<open>BanditChatState\<close> collection: the \<^verbatim>\<open>arms\<close> array of the document of each chat
  (the schema makes \<^verbatim>\<open>chat\<close> unique, so there is at most one document per chat), and the
  number of document writes that have succeeded so far. The operations below run one at a
  time against a store that is available; interleavings of concurrent requests and
  failures of the database itself are outside the model.
\<close>

record BanditStore =
  docs :: "oid \<rightharpoonup> ArmStats list"
  writes :: nat

definition emptyStore :: BanditStore where
  "emptyStore = \<lparr>docs = Map.empty, writes = 0\<rparr>"

datatype error = TypeError | NoArmsForStage string

section \<open>Bandit state store\<close>

definition findOne :: "BanditStore \<Rightarrow> oid \<Rightarrow> ArmStats list option" where
  "findOne st chatId = docs st chatId"

text \<open>
  \<^verbatim>\<open>state.save()\<close> of a document built with \<^verbatim>\<open>new BanditChatState\<close> is an insert; the unique
  index on \<^verbatim>\<open>chat\<close> rejects it with error code 11000 (the result \<open>None\<close>) when the chat
  already has a document. \<^verbatim>\<open>state.save()\<close> of a document that was read from the collection
  overwrites that document.
\<close>

definition saveNew :: "BanditStore \<Rightarrow> oid \<Rightarrow> ArmStats list \<Rightarrow> BanditStore option" where
  "saveNew st chatId arms =
     (case docs st chatId of
        None \<Rightarrow> Some (st\<lparr>docs := (docs st)(chatId \<mapsto> arms), writes := writes st + 1\<rparr>)
      | Some _ \<Rightarrow> None)"

definition save :: "BanditStore \<Rightarrow> oid \<Rightarrow> ArmStats list \<Rightarrow> BanditStore" where
  "save st chatId arms = st\<lparr>docs := (docs st)(chatId \<mapsto> arms), writes := writes st + 1\<rparr>"

definition defaultStats :: "ArmConfig \<Rightarrow> ArmStats" where
  "defaultStats arm = \<lparr>ArmStats.armId = ArmConfig.armId arm, alpha = 1, beta = 1, pulls = 0\<rparr>"

text \<open>
  The reconciliation loop of \<^verbatim>\<open>getOrCreateBanditState\<close>: \<^verbatim>\<open>existingArmIds\<close> is computed once,
  before the loop; every registry arm whose id is not in it is pushed and \<^verbatim>\<open>modified\<close> is
  set.
\<close>

definition reconcile :: "ArmConfig list \<Rightarrow> ArmStats list \<Rightarrow> ArmStats list \<times> bool" where
  "reconcile reg arms =
     (let existingArmIds = set (map ArmStats.armId arms) in
      foldl (\<lambda>(as, modified) arm.
               if ArmConfig.armId arm \<notin> existingArmIds
               then (as @ [defaultStats arm], True)
               else (as, modified))
            (arms, False) reg)"

text \<open>
  \<^verbatim>\<open>getOrCreateBanditState\<close> returns the loaded state (\<open>None\<close> is JavaScript's \<^verbatim>\<open>null\<close>, which
  the re-read after a duplicate-key error could return) together with the store.
\<close>

definition getOrCreateBanditState ::
  "ArmConfig list \<Rightarrow> oid \<Rightarrow> BanditStore \<Rightarrow> ArmStats list option \<times> BanditStore" where
  "getOrCreateBanditState reg chatId st =
     (case findOne st chatId of
        None \<Rightarrow>
          (let state = map defaultStats reg in
           case saveNew st chatId state of
             Some st' \<Rightarrow> (Some state, st')
           | None \<Rightarrow> (findOne st chatId, st))
      | Some arms \<Rightarrow>
          (let (arms', modified) = reconcile reg arms in
           if modified then (Some arms', save st chatId arms') else (Some arms', st)))"

section \<open>Feedback applicator\<close>

text \<open>
  \<^verbatim>\<open>state.arms.find(...)\<close> returns a reference to the first matching element, and the
  increments mutate that element in place: \<open>updateFirst\<close> rewrites the first element that
  satisfies the predicate and leaves the rest of the array as it is.
\<close>

fun updateFirst :: "('a \<Rightarrow> bool) \<Rightarrow> ('a \<Rightarrow> 'a) \<Rightarrow> 'a list \<Rightarrow> 'a list" where
  "updateFirst P f [] = []"
| "updateFirst P f (x # xs) = (if P x then f x # xs else x # updateFirst P f xs)"

definition increment :: "int \<Rightarrow> ArmStats \<Rightarrow> ArmStats" where
  "increment reward armStats =
     (let a = armStats\<lparr>pulls := pulls armStats + 1\<rparr> in
      if reward = 1 then a\<lparr>alpha := alpha a + 1\<rparr> else a\<lparr>beta := beta a + 1\<rparr>)"

text \<open>
  \<^verbatim>\<open>updateArm\<close> returns \<^verbatim>\<open>null\<close> (\<open>Inr None\<close>) for an arm that the loaded state does not have,
  and otherwise the object \<^verbatim>\<open>{alpha, beta, pulls}\<close> after the update, here a triple in that
  order. Reading \<^verbatim>\<open>state.arms\<close> of a \<^verbatim>\<open>null\<close> state throws a \<^verbatim>\<open>TypeError\<close>.
\<close>

definition updateArm ::
  "ArmConfig list \<Rightarrow> oid \<Rightarrow> string \<Rightarrow> int \<Rightarrow> BanditStore
     \<Rightarrow> (error + (int \<times> int \<times> int) option) \<times> BanditStore" where
  "updateArm reg chatId arm_id reward st =
     (case getOrCreateBanditState reg chatId st of
        (None, st1) \<Rightarrow> (Inl TypeError, st1)
      | (Some arms, st1) \<Rightarrow>
          (case find (\<lambda>a. ArmStats.armId a = arm_id) arms of
             None \<Rightarrow> (Inr None, st1)
           | Some armStats \<Rightarrow>
               (let after = increment reward armStats;
                    arms' = updateFirst (\<lambda>a. ArmStats.armId a = arm_id) (increment reward) arms
                in (Inr (Some (alpha after, beta after, pulls after)), save st1 chatId arms'))))"

section \<open>Selection engine\<close>

text \<open>
  \<^verbatim>\<open>sampleBeta\<close> computes with floating-point numbers, logarithms and \<^verbatim>\<open>Math.random()\<close>; the
  selection is modelled for every sampler at once: \<open>sampleBeta i a b\<close> is the value that the
  \<open>i\<close>-th call of \<^verbatim>\<open>sampleBeta\<close> in the request returns when it is called with \<open>a\<close> and
  \<open>b\<close>, an arbitrary real number. The loop of \<^verbatim>\<open>chooseArm\<close> calls the sampler once for each
  candidate, in the order of the registry, with the statistics of the first entry of the
  state that has the candidate's id, or with the prior \<open>(1, 1)\<close> when there is none.
\<close>

definition drawSamples ::
  "(nat \<Rightarrow> int \<Rightarrow> int \<Rightarrow> real) \<Rightarrow> ArmStats list \<Rightarrow> ArmConfig list
     \<Rightarrow> (ArmConfig \<times> real) list" where
  "drawSamples sampleBeta arms candidateArmConfigs =
     map (\<lambda>(i, armConfig).
            (case find (\<lambda>a. ArmStats.armId a = ArmConfig.armId armConfig) arms of
               None \<Rightarrow> (armConfig, sampleBeta i 1 1)
             | Some armStats \<Rightarrow> (armConfig, sampleBeta i (alpha armStats) (beta armStats))))
         (enumerate 0 candidateArmConfigs)"

record ArmSelection =
  armId :: string
  modelName :: string
  temperature :: real
  "notes" :: string

text \<open>
  \<^verbatim>\<open>samples.sort((a, b) => b.sample - a.sample)\<close> orders the array by descending sample;
  \<^verbatim>\<open>Array.prototype.sort\<close> is stable, and so is \<open>sort_key\<close>, here on the negated sample.
  The argument \<open>stage\<close> is \<open>None\<close> when the caller omits it (the default is
  \<^verbatim>\<open>"unified"\<close>). The empty candidate list throws before the state is read.
\<close>

definition chooseArm ::
  "ArmConfig list \<Rightarrow> (nat \<Rightarrow> int \<Rightarrow> int \<Rightarrow> real) \<Rightarrow> oid \<Rightarrow> string option \<Rightarrow> BanditStore
     \<Rightarrow> (error + ArmSelection) \<times> BanditStore" where
  "chooseArm reg sampleBeta chatId stage_arg st =
     (let stg = (case stage_arg of None \<Rightarrow> ''unified'' | Some s \<Rightarrow> s) in
      case getOrCreateBanditState reg chatId st of
        (state, st1) \<Rightarrow>
          (let candidateArmConfigs = filter (\<lambda>a. stage a = stg) reg in
           if candidateArmConfigs = [] then (Inl (NoArmsForStage stg), st1)
           else
             (case state of
                None \<Rightarrow> (Inl TypeError, st1)
              | Some arms \<Rightarrow>
                  (let samples = drawSamples sampleBeta arms candidateArmConfigs;
                       sorted = sort_key (\<lambda>p. - snd p) samples;
                       chosen = fst (hd sorted)
                   in (Inr \<lparr>ArmSelection.armId = ArmConfig.armId chosen,
                             modelName = ArmConfig.modelName chosen,
                             temperature = ArmConfig.temperature chosen,
                             notes = ArmConfig.notes chosen\<rparr>, st1)))))"

section \<open>Introspection\<close>

text \<open>
  \<^verbatim>\<open>getBanditStats\<close> folds the loaded array into an object keyed by arm id; a later entry
  with the same id overwrites an earlier one.
\<close>

definition getBanditStats ::
  "ArmConfig list \<Rightarrow> oid \<Rightarrow> BanditStore
     \<Rightarrow> (error + (string \<rightharpoonup> int \<times> int \<times> int)) \<times> BanditStore" where
  "getBanditStats reg chatId st =
     (case getOrCreateBanditState reg chatId st of
        (None, st1) \<Rightarrow> (Inl TypeError, st1)
      | (Some arms, st1) \<Rightarrow>
          (Inr (foldl (\<lambda>acc arm. acc(ArmStats.armId arm \<mapsto> (alpha arm, beta arm, pulls arm)))
                  Map.empty arms), st1))"

section \<open>Reachable stores and the invariant of the statistics\<close>

text \<open>
  The stores that the service can produce: from the empty collection, by any sequence of
  calls of \<^verbatim>\<open>chooseArm\<close>, \<^verbatim>\<open>updateArm\<close> and \<^verbatim>\<open>getBanditStats\<close>. The registry is a constant
  of one deployment and may differ from one deployment to the next, so every call has the
  registry of its own deployment; a document written under an earlier registry can lack
  arms of the current one, which is what the reconciliation of the loader is for.
\<close>

inductive reachable :: "BanditStore \<Rightarrow> bool" where
  reachable_empty: "reachable emptyStore"
| reachable_choose: "reachable st \<Longrightarrow> reachable (snd (chooseArm reg smp c sg st))"
| reachable_update: "reachable st \<Longrightarrow> reachable (snd (updateArm reg c a r st))"
| reachable_stats: "reachable st \<Longrightarrow> reachable (snd (getBanditStats reg c st))"

definition armInvariant :: "ArmStats \<Rightarrow> bool" where
  "armInvariant s =
     (1 \<le> alpha s \<and> 1 \<le> beta s \<and> 0 \<le> pulls s \<and> pulls s = (alpha s - 1) + (beta s - 1))"

section \<open>The feedback endpoint\<close>

text \<open>
  \<^verbatim>\<open>submitFeedback\<close> of \<^verbatim>\<open>controllers/chatController.js\<close> is the caller of \<^verbatim>\<open>updateArm\<close>. The
  model keeps the collections it reads and writes. A message carries the chat it belongs
  to, its sender, the arm that generated it and the feedback (\<^verbatim>\<open>null\<close>, \<^verbatim>\<open>'up'\<close> or
  \<^verbatim>\<open>'down'\<close>). A project is stored as \<^verbatim>\<open>populate\<close> returns it: with its team, or with \<^verbatim>\<open>null\<close>
  when the team is gone; a member of a team whose user is gone is \<open>None\<close>.
\<close>

datatype sender = User | Chatbot

datatype feedback = Up | Down

record Message =
  chat :: oid
  sender :: sender
  armId :: "string option"
  feedback :: "feedback option"

record Team =
  organization :: oid
  members :: "oid option list"

record Project =
  team :: "Team option"

record Chat =
  project :: oid

record Database =
  messages :: "oid \<rightharpoonup> Message"
  chats :: "oid \<rightharpoonup> Chat"
  projects :: "oid \<rightharpoonup> Project"
  bandit :: BanditStore

text \<open>
  The request: \<^verbatim>\<open>req.user\<close> as the authentication middleware sets it, and \<^verbatim>\<open>req.body\<close>. A
  field of the body is \<open>None\<close> when it is missing or \<^verbatim>\<open>null\<close>; \<open>reward\<close> is
  \<^verbatim>\<open>Number(reward)\<close>, \<open>None\<close> when that is not finite. A finite reward that is not an
  integer fails the same test as an integer other than 0 and 1 and has no value of its own
  here.
\<close>

record ReqUser =
  userId :: oid
  organization :: oid
  role :: string

record FeedbackBody =
  arm_id :: "string option"
  reward :: "int option"
  messageId :: "oid option"
  chatId :: "oid option"

text \<open>
  The answers of the endpoint: an error status with its message, \<^verbatim>\<open>already_rated\<close> with
  \<^verbatim>\<open>arm_id\<close>, \<^verbatim>\<open>reward\<close> and \<^verbatim>\<open>existingFeedback\<close>, or \<^verbatim>\<open>success\<close> with \<^verbatim>\<open>arm_id\<close>, \<^verbatim>\<open>reward\<close>,
  \<^verbatim>\<open>chatId\<close> and \<^verbatim>\<open>new_stats\<close>.
\<close>

datatype response =
    Error nat string
  | AlreadyRated string int feedback
  | Success string int oid "(int \<times> int \<times> int) option"

text \<open>A string is truthy in JavaScript when it is present and not empty.\<close>

definition truthy :: "string option \<Rightarrow> string option" where
  "truthy v = (case v of None \<Rightarrow> None | Some s \<Rightarrow> if s = [] then None else Some s)"

text \<open>
  Lines 475 to 507: the chat and the arm that the feedback is for. With a \<^verbatim>\<open>messageId\<close> they
  come from the message (the arm of the request is kept when the message has none); without
  one they are the \<^verbatim>\<open>chatId\<close> and the \<^verbatim>\<open>arm_id\<close> of the request.
\<close>

definition resolveTarget :: "Database \<Rightarrow> FeedbackBody \<Rightarrow> string \<Rightarrow> response + (oid \<times> string)" where
  "resolveTarget db body armIdStr =
     (case truthy (messageId body) of
        Some mid \<Rightarrow>
          (case messages db mid of
             None \<Rightarrow> Inl (Error 404 ''Message not found.'')
           | Some message \<Rightarrow>
               if sender message \<noteq> Chatbot
               then Inl (Error 400 ''Feedback can only be submitted for chatbot messages.'')
               else
                 (case truthy (Some (chat message)) of
                    None \<Rightarrow> Inl (Error 400 ''messageId (preferred) or chatId is required to update per-chat bandit state.'')
                  | Some effectiveChatId \<Rightarrow>
                      (case truthy (Message.armId message) of
                         Some messageArmId \<Rightarrow> Inr (effectiveChatId, messageArmId)
                       | None \<Rightarrow> Inr (effectiveChatId, armIdStr))))
      | None \<Rightarrow>
          (case truthy (chatId body) of
             None \<Rightarrow> Inl (Error 400 ''messageId (preferred) or chatId is required to update per-chat bandit state.'')
           | Some effectiveChatId \<Rightarrow> Inr (effectiveChatId, armIdStr)))"

text \<open>
  Lines 517 to 540: the requester must reach the chat through its project and team.
  \<^verbatim>\<open>team.members.find\<close> reads \<^verbatim>\<open>m.user._id\<close> of each member in turn and throws a
  \<^verbatim>\<open>TypeError\<close> at a member without user, unless it has found the requester before.
\<close>

fun findMember :: "oid \<Rightarrow> oid option list \<Rightarrow> error + bool" where
  "findMember uid [] = Inr False"
| "findMember uid (None # ms) = Inl TypeError"
| "findMember uid (Some u # ms) = (if u = uid then Inr True else findMember uid ms)"

definition accessCheck :: "Database \<Rightarrow> ReqUser \<Rightarrow> oid \<Rightarrow> response option" where
  "accessCheck db user effectiveChatId =
     (case chats db effectiveChatId of
        None \<Rightarrow> Some (Error 404 ''Chat not found.'')
      | Some ch \<Rightarrow>
          (case projects db (project ch) of
             None \<Rightarrow> Some (Error 404 ''Project not found.'')
           | Some proj \<Rightarrow>
               (case team proj of
                  None \<Rightarrow> Some (Error 404 ''Team not found.'')
                | Some tm \<Rightarrow>
                    if role user \<noteq> ''superadmin'' then
                      (if Team.organization tm \<noteq> ReqUser.organization user
                       then Some (Error 403 ''Not in this organization.'')
                       else
                         (case findMember (userId user) (members tm) of
                            Inl err \<Rightarrow> Some (Error 500 ''TypeError'')
                          | Inr found \<Rightarrow>
                              if found then None
                              else Some (Error 403 ''Not a member of this team.'')))
                    else None)))"

text \<open>
  \<^verbatim>\<open>Message.findOneAndUpdate({_id, feedback: null}, {$set: {feedback}}, {new: true})\<close> sets the
  feedback of the message only when it has none, and returns the updated message or
  \<^verbatim>\<open>null\<close>.
\<close>

definition findOneAndUpdate :: "Database \<Rightarrow> oid \<Rightarrow> feedback \<Rightarrow> Message option \<times> Database" where
  "findOneAndUpdate db mid nextFeedback =
     (case messages db mid of
        None \<Rightarrow> (None, db)
      | Some m \<Rightarrow>
          (case feedback m of
             Some _ \<Rightarrow> (None, db)
           | None \<Rightarrow>
               (let updated = m\<lparr>feedback := Some nextFeedback\<rparr>
                in (Some updated, db\<lparr>messages := (messages db)(mid \<mapsto> updated)\<rparr>))))"

text \<open>
  Lines 542 to 575, the write-once gate: with a \<^verbatim>\<open>messageId\<close> the feedback of the message
  is claimed; when it was set already the endpoint answers \<^verbatim>\<open>already_rated\<close> (\<open>Inl\<close>) and
  does not go on. Without a \<^verbatim>\<open>messageId\<close> the block is skipped.
\<close>

definition claimFeedback ::
  "Database \<Rightarrow> FeedbackBody \<Rightarrow> int \<Rightarrow> string \<Rightarrow> (response \<times> Database) + Database" where
  "claimFeedback db body rewardNum effectiveArmId =
     (case truthy (messageId body) of
        None \<Rightarrow> Inr db
      | Some mid \<Rightarrow>
          (let nextFeedback = (if rewardNum = 1 then Up else Down) in
           case findOneAndUpdate db mid nextFeedback of
             (Some updated, db1) \<Rightarrow> Inr db1
           | (None, db1) \<Rightarrow>
               (case messages db1 mid of
                  None \<Rightarrow> Inl (Error 404 ''Message not found.'', db1)
                | Some existing \<Rightarrow>
                    (case feedback existing of
                       Some existingFeedback \<Rightarrow>
                         Inl (AlreadyRated effectiveArmId rewardNum existingFeedback, db1)
                     | None \<Rightarrow> Inr db1))))"

text \<open>
  \<^verbatim>\<open>submitFeedback\<close>: validation, target, access, gate, then \<^verbatim>\<open>updateArm\<close> on the chat's
  bandit state. An exception of \<^verbatim>\<open>updateArm\<close> is caught and answered with status 500.
\<close>

definition submitFeedback ::
  "ArmConfig list \<Rightarrow> FeedbackBody \<Rightarrow> ReqUser \<Rightarrow> Database \<Rightarrow> response \<times> Database" where
  "submitFeedback reg body user db =
     (let armIdStr = (case arm_id body of None \<Rightarrow> [] | Some a \<Rightarrow> a) in
      case reward body of
        None \<Rightarrow> (Error 400 ''arm_id and reward (0 or 1) are required.'', db)
      | Some rewardNum \<Rightarrow>
          if armIdStr = [] \<or> (rewardNum \<noteq> 0 \<and> rewardNum \<noteq> 1)
          then (Error 400 ''arm_id and reward (0 or 1) are required.'', db)
          else
            (case resolveTarget db body armIdStr of
               Inl resp \<Rightarrow> (resp, db)
             | Inr (effectiveChatId, effectiveArmId) \<Rightarrow>
                 (case accessCheck db user effectiveChatId of
                    Some resp \<Rightarrow> (resp, db)
                  | None \<Rightarrow>
                      (case claimFeedback db body rewardNum effectiveArmId of
                         Inl (resp, db1) \<Rightarrow> (resp, db1)
                       | Inr db1 \<Rightarrow>
                           (case updateArm reg effectiveChatId effectiveArmId rewardNum (bandit db1) of
                              (Inl err, st) \<Rightarrow> (Error 500 ''TypeError'', db1\<lparr>bandit := st\<rparr>)
                            | (Inr newStats, st) \<Rightarrow>
                                (Success effectiveArmId rewardNum effectiveChatId newStats,
                                 db1\<lparr>bandit := st\<rparr>))))))"

section \<open>Notions used in the statements\<close>

text \<open>
  The registry arms that a stored array lacks, and the invariant of a whole store: every
  entry of every document satisfies \<open>armInvariant\<close>.
\<close>

definition missingArms :: "ArmConfig list \<Rightarrow> ArmStats list \<Rightarrow> ArmConfig list" where
  "missingArms reg arms =
     filter (\<lambda>a. ArmConfig.armId a \<notin> set (map ArmStats.armId arms)) reg"

text \<open>
  The sample of the \<open>j\<close>-th candidate: the value of the \<open>j\<close>-th call of the sampler, made
  with the statistics of that candidate's arm.
\<close>

definition drawnSample ::
  "(nat \<Rightarrow> int \<Rightarrow> int \<Rightarrow> real) \<Rightarrow> ArmStats list \<Rightarrow> ArmConfig list \<Rightarrow> nat \<Rightarrow> real" where
  "drawnSample smp arms cands j =
     (case find (\<lambda>a. ArmStats.armId a = ArmConfig.armId (cands ! j)) arms of
        None \<Rightarrow> smp j 1 1
      | Some s \<Rightarrow> smp j (alpha s) (beta s))"

definition storeInvariant :: "BanditStore \<Rightarrow> bool" where
  "storeInvariant st = (\<forall>c arms. docs st c = Some arms \<longrightarrow> (\<forall>s \<in> set arms. armInvariant s))"

text \<open>
  The data of the examples: a chat \<^verbatim>\<open>c1\<close> of project \<^verbatim>\<open>p1\<close>, whose team has the
  member \<^verbatim>\<open>u1\<close>; a chatbot message \<^verbatim>\<open>m1\<close> of that chat, generated by \<^verbatim>\<open>unified_base\<close> and
  rated \<^verbatim>\<open>'up'\<close>; the statistics that this one reward leaves.
\<close>

definition exampleMessage :: Message where
  "exampleMessage =
     \<lparr>chat = ''c1'', sender = Chatbot, Message.armId = Some ''unified_base'',
      feedback = Some Up\<rparr>"

definition exampleDatabase :: Database where
  "exampleDatabase =
     \<lparr>messages = [''m1'' \<mapsto> exampleMessage],
      chats = [''c1'' \<mapsto> \<lparr>project = ''p1''\<rparr>],
      projects = [''p1'' \<mapsto>
        \<lparr>team = Some \<lparr>Team.organization = ''o1'', members = [Some ''u1'']\<rparr>\<rparr>],
      bandit =
        \<lparr>docs = [''c1'' \<mapsto>
           [\<lparr>ArmStats.armId = ''unified_base'', alpha = 2, beta = 1, pulls = 1\<rparr>,
            \<lparr>ArmStats.armId = ''unified_strict_json'', alpha = 1, beta = 1, pulls = 0\<rparr>]],
         writes = 2\<rparr>\<rparr>"

definition exampleUser :: ReqUser where
  "exampleUser = \<lparr>userId = ''u1'', ReqUser.organization = ''o1'', role = ''member''\<rparr>"

section \<open>Properties of the store and of the applicator\<close>

lemma reconcile_foldl:
  "foldl (\<lambda>(as, modified) arm.
            if P arm then (as @ [defaultStats arm], True) else (as, modified)) (as0, m0) reg
     = (as0 @ map defaultStats (filter P reg), m0 \<or> filter P reg \<noteq> [])"
  by (induction reg arbitrary: as0 m0) auto

lemma reconcile_eq:
  "reconcile reg arms =
     (arms @ map defaultStats (missingArms reg arms), missingArms reg arms \<noteq> [])"
  by (simp add: reconcile_def missingArms_def Let_def reconcile_foldl)

lemma getOrCreate_fresh:
  "docs st c = None \<Longrightarrow>
     getOrCreateBanditState reg c st =
       (Some (map defaultStats reg),
        st\<lparr>docs := (docs st)(c \<mapsto> map defaultStats reg), writes := writes st + 1\<rparr>)"
  by (simp add: getOrCreateBanditState_def findOne_def saveNew_def Let_def)

lemma getOrCreate_stored:
  "docs st c = Some arms \<Longrightarrow>
     getOrCreateBanditState reg c st =
       (Some (arms @ map defaultStats (missingArms reg arms)),
        if missingArms reg arms = [] then st
        else save st c (arms @ map defaultStats (missingArms reg arms)))"
  by (simp add: getOrCreateBanditState_def findOne_def reconcile_eq)

lemma missingArms_append:
  "missingArms reg (arms @ map defaultStats (missingArms reg arms)) = []"
  by (auto simp: missingArms_def defaultStats_def filter_empty_conv)

lemma getOrCreate_docs:
  "docs (snd (getOrCreateBanditState reg c st)) =
     (docs st)(c \<mapsto> (case docs st c of
                         None \<Rightarrow> map defaultStats reg
                       | Some arms \<Rightarrow> arms @ map defaultStats (missingArms reg arms)))"
proof (cases "docs st c")
  case None
  then show ?thesis by (simp add: getOrCreate_fresh)
next
  case (Some arms)
  then show ?thesis by (auto simp: getOrCreate_stored save_def)
qed

lemma getOrCreate_state:
  "fst (getOrCreateBanditState reg c st) = docs (snd (getOrCreateBanditState reg c st)) c"
  by (cases "docs st c") (simp_all add: getOrCreate_fresh getOrCreate_stored save_def)

lemma getOrCreate_loaded:
  "\<exists>arms. fst (getOrCreateBanditState reg c st) = Some arms"
  by (simp add: getOrCreate_state getOrCreate_docs)

lemma chooseArm_store:
  "snd (chooseArm reg smp c sg st) = snd (getOrCreateBanditState reg c st)"
  by (simp add: chooseArm_def Let_def split: prod.splits option.splits)

lemma getBanditStats_store:
  "snd (getBanditStats reg c st) = snd (getOrCreateBanditState reg c st)"
  by (simp add: getBanditStats_def split: prod.splits option.splits)

lemma updateFirst_find:
  "find P xs = Some s \<Longrightarrow>
     \<exists>k<length xs. xs ! k = s \<and> (\<forall>j<k. \<not> P (xs ! j)) \<and> updateFirst P f xs = xs[k := f s]"
proof (induction xs)
  case Nil
  then show ?case by simp
next
  case (Cons x xs)
  show ?case
  proof (cases "P x")
    case True
    with Cons.prems have "x = s" by simp
    with True show ?thesis by (intro exI[of _ 0]) simp
  next
    case False
    with Cons.prems have "find P xs = Some s" by simp
    from Cons.IH[OF this] obtain k where k: "k < length xs" "xs ! k = s"
      "\<forall>j<k. \<not> P (xs ! j)" "updateFirst P f xs = xs[k := f s]" by blast
    have "\<forall>j<Suc k. \<not> P ((x # xs) ! j)"
      using False k(3) by (auto simp: less_Suc_eq_0_disj)
    with k False show ?thesis by (intro exI[of _ "Suc k"]) simp
  qed
qed

text \<open>
  C1. A call of \<^verbatim>\<open>updateArm\<close> with reward 0 or 1 for an arm that the loaded state of the
  conversation has (the stored arms, completed by the registry) changes exactly one entry
  of the \<^verbatim>\<open>arms\<close> array, the first one with that id: its \<^verbatim>\<open>pulls\<close> grows by 1, its \<^verbatim>\<open>alpha\<close>
  by 1 when the reward is 1 and its \<^verbatim>\<open>beta\<close> by 1 otherwise. The new array is saved as the
  document of the conversation and the call returns the new \<^verbatim>\<open>{alpha, beta, pulls}\<close>.
\<close>

theorem updateArm_applies_reward:
  assumes "getOrCreateBanditState reg c st = (Some arms, st1)"
    and "find (\<lambda>a. ArmStats.armId a = aid) arms = Some s"
    and "r = 0 \<or> r = 1"
  shows "\<exists>k<length arms. arms ! k = s \<and> (\<forall>j<k. ArmStats.armId (arms ! j) \<noteq> aid) \<and>
           updateArm reg c aid r st =
             (Inr (Some (alpha s + (if r = 1 then 1 else 0),
                         beta s + (if r = 1 then 0 else 1),
                         pulls s + 1)),
              save st1 c
                (arms[k := s\<lparr>alpha := alpha s + (if r = 1 then 1 else 0),
                             beta := beta s + (if r = 1 then 0 else 1),
                             pulls := pulls s + 1\<rparr>]))"
proof -
  from updateFirst_find[OF assms(2), of "increment r"]
  obtain k where k: "k < length arms" "arms ! k = s"
    "updateFirst (\<lambda>a. ArmStats.armId a = aid) (increment r) arms
       = arms[k := increment r s]"
    and first: "\<forall>j<k. ArmStats.armId (arms ! j) \<noteq> aid" by blast
  have inc: "increment r s =
      s\<lparr>alpha := alpha s + (if r = 1 then 1 else 0),
        beta := beta s + (if r = 1 then 0 else 1),
        pulls := pulls s + 1\<rparr>"
    by (simp add: increment_def Let_def)
  have "updateArm reg c aid r st =
      (Inr (Some (alpha (increment r s), beta (increment r s),
                  pulls (increment r s))),
       save st1 c (arms[k := increment r s]))"
    using assms(1,2) k(3) by (simp add: updateArm_def Let_def)
  then show ?thesis using k(1,2) first unfolding inc by (intro exI[of _ k]) simp
qed

text \<open>
  The scenario of the specification: on a fresh conversation the registry's two arms start
  at (1, 1, 0); reward 1 for \<^verbatim>\<open>unified_base\<close> returns (2, 1, 1) and stores it, and the other
  arm stays at (1, 1, 0).
\<close>

theorem updateArm_applies_reward_witness:
  "getOrCreateBanditState (ARMS None) ''c1'' emptyStore =
     (Some [\<lparr>ArmStats.armId = ''unified_base'', alpha = 1, beta = 1, pulls = 0\<rparr>,
            \<lparr>ArmStats.armId = ''unified_strict_json'', alpha = 1, beta = 1, pulls = 0\<rparr>],
      \<lparr>docs = [''c1'' \<mapsto>
          [\<lparr>ArmStats.armId = ''unified_base'', alpha = 1, beta = 1, pulls = 0\<rparr>,
           \<lparr>ArmStats.armId = ''unified_strict_json'', alpha = 1, beta = 1, pulls = 0\<rparr>]],
        writes = 1\<rparr>)
   \<and> fst (updateArm (ARMS None) ''c1'' ''unified_base'' 1 emptyStore) = Inr (Some (2, 1, 1))
   \<and> docs (snd (updateArm (ARMS None) ''c1'' ''unified_base'' 1 emptyStore)) ''c1'' =
       Some [\<lparr>ArmStats.armId = ''unified_base'', alpha = 2, beta = 1, pulls = 1\<rparr>,
             \<lparr>ArmStats.armId = ''unified_strict_json'', alpha = 1, beta = 1, pulls = 0\<rparr>]"
proof -
  let ?a = "\<lparr>ArmStats.armId = ''unified_base'', alpha = 1, beta = 1, pulls = 0\<rparr>"
  let ?b = "\<lparr>ArmStats.armId = ''unified_strict_json'', alpha = 1, beta = 1, pulls = 0\<rparr>"
  let ?st1 = "\<lparr>docs = [''c1'' \<mapsto> [?a, ?b]], writes = 1\<rparr>"
  have load: "getOrCreateBanditState (ARMS None) ''c1'' emptyStore = (Some [?a, ?b], ?st1)"
    by (simp add: getOrCreateBanditState_def findOne_def saveNew_def emptyStore_def
        ARMS_def defaultStats_def Let_def)
  have found: "find (\<lambda>a. ArmStats.armId a = ''unified_base'') [?a, ?b] = Some ?a"
    by simp
  from updateArm_applies_reward[OF load found, of 1]
  obtain k where k: "k < length [?a, ?b]" "[?a, ?b] ! k = ?a"
    "updateArm (ARMS None) ''c1'' ''unified_base'' 1 emptyStore =
       (Inr (Some (2, 1, 1)),
        save ?st1 ''c1'' ([?a, ?b][k := ?a\<lparr>alpha := 2, beta := 1, pulls := 1\<rparr>]))"
    by auto
  from k(1,2) have "k = 0" by (cases k) (auto simp: less_Suc_eq_0_disj)
  with k(3) load show ?thesis by (simp add: save_def)
qed

lemma getOrCreate_keeps:
  assumes "docs st c' = Some arms"
  shows "\<exists>new. docs (snd (getOrCreateBanditState reg c st)) c' = Some (arms @ new)
           \<and> (\<forall>s \<in> set new. alpha s = 1 \<and> beta s = 1 \<and> pulls s = 0)"
proof (cases "c' = c")
  case True
  with assms have "docs (snd (getOrCreateBanditState reg c st)) c'
      = Some (arms @ map defaultStats (missingArms reg arms))"
    by (simp add: getOrCreate_docs)
  moreover have "\<forall>s \<in> set (map defaultStats (missingArms reg arms)).
      alpha s = 1 \<and> beta s = 1 \<and> pulls s = 0"
    by (auto simp: defaultStats_def)
  ultimately show ?thesis by blast
next
  case False
  with assms have "docs (snd (getOrCreateBanditState reg c st)) c' = Some (arms @ [])"
    by (simp add: getOrCreate_docs)
  then show ?thesis by (intro exI[of _ "[]"]) simp
qed

lemma getOrCreate_other:
  "c' \<noteq> c \<Longrightarrow> docs (snd (getOrCreateBanditState reg c st)) c' = docs st c'"
  by (simp add: getOrCreate_docs)

text \<open>
  C7. When the conversation has a stored array, loading it returns that array followed by
  one entry \<open>(1, 1, 0)\<close> for each registry arm whose id the array lacks, so the entries
  that were stored are not altered; the extended array is saved exactly when something was
  appended, and otherwise the store (its write count included) is left as it was. Loading
  a second time returns the same array and writes nothing. \<^verbatim>\<open>chooseArm\<close> and
  \<^verbatim>\<open>getBanditStats\<close> leave the store as this load leaves it, and \<^verbatim>\<open>updateArm\<close> looks its
  arm up in the extended array and saves its update of that array.
\<close>

theorem reconciliation_appends_missing:
  assumes "docs st c = Some arms"
  shows "getOrCreateBanditState reg c st =
           (Some (arms @ map defaultStats (missingArms reg arms)),
            if missingArms reg arms = [] then st
            else save st c (arms @ map defaultStats (missingArms reg arms)))
       \<and> (\<forall>a \<in> set reg. ArmConfig.armId a \<notin> ArmStats.armId ` set arms \<longrightarrow>
             \<lparr>ArmStats.armId = ArmConfig.armId a, alpha = 1, beta = 1, pulls = 0\<rparr>
               \<in> set (map defaultStats (missingArms reg arms)))
       \<and> (\<forall>s \<in> set (map defaultStats (missingArms reg arms)).
             alpha s = 1 \<and> beta s = 1 \<and> pulls s = 0
             \<and> ArmStats.armId s \<notin> ArmStats.armId ` set arms
             \<and> ArmStats.armId s \<in> ArmConfig.armId ` set reg)
       \<and> getOrCreateBanditState reg c (snd (getOrCreateBanditState reg c st))
           = getOrCreateBanditState reg c st
       \<and> snd (chooseArm reg smp c sg st) = snd (getOrCreateBanditState reg c st)
       \<and> snd (getBanditStats reg c st) = snd (getOrCreateBanditState reg c st)
       \<and> snd (updateArm reg c aid r st) =
           (case find (\<lambda>a. ArmStats.armId a = aid)
                   (arms @ map defaultStats (missingArms reg arms)) of
              None \<Rightarrow> snd (getOrCreateBanditState reg c st)
            | Some _ \<Rightarrow>
                save (snd (getOrCreateBanditState reg c st)) c
                  (updateFirst (\<lambda>a. ArmStats.armId a = aid) (increment r)
                     (arms @ map defaultStats (missingArms reg arms))))"
proof -
  let ?new = "map defaultStats (missingArms reg arms)"
  have load: "getOrCreateBanditState reg c st =
      (Some (arms @ ?new), if missingArms reg arms = [] then st else save st c (arms @ ?new))"
    using assms by (rule getOrCreate_stored)
  have added: "\<forall>a \<in> set reg. ArmConfig.armId a \<notin> ArmStats.armId ` set arms \<longrightarrow>
      \<lparr>ArmStats.armId = ArmConfig.armId a, alpha = 1, beta = 1, pulls = 0\<rparr> \<in> set ?new"
    by (auto simp: missingArms_def defaultStats_def)
  have fresh: "\<forall>s \<in> set ?new. alpha s = 1 \<and> beta s = 1 \<and> pulls s = 0
      \<and> ArmStats.armId s \<notin> ArmStats.armId ` set arms
      \<and> ArmStats.armId s \<in> ArmConfig.armId ` set reg"
    by (auto simp: missingArms_def defaultStats_def)
  have again: "getOrCreateBanditState reg c (snd (getOrCreateBanditState reg c st))
      = getOrCreateBanditState reg c st"
  proof (cases "missingArms reg arms = []")
    case True
    then show ?thesis using assms by (simp add: getOrCreate_stored)
  next
    case False
    have "docs (save st c (arms @ ?new)) c = Some (arms @ ?new)"
      by (simp add: save_def)
    from getOrCreate_stored[OF this, of reg] False show ?thesis
      by (simp add: load missingArms_append)
  qed
  have update: "snd (updateArm reg c aid r st) =
      (case find (\<lambda>a. ArmStats.armId a = aid) (arms @ ?new) of
         None \<Rightarrow> snd (getOrCreateBanditState reg c st)
       | Some _ \<Rightarrow>
           save (snd (getOrCreateBanditState reg c st)) c
             (updateFirst (\<lambda>a. ArmStats.armId a = aid) (increment r) (arms @ ?new)))"
    by (simp add: updateArm_def load Let_def split: option.splits)
  from load added fresh again update show ?thesis
    by (simp only: chooseArm_store getBanditStats_store simp_thms)
qed

text \<open>
  A stored array that has only \<^verbatim>\<open>unified_base\<close>, at (3, 2, 3): the load appends
  \<^verbatim>\<open>unified_strict_json\<close> at (1, 1, 0), keeps the stored entry and writes once; the second
  load changes nothing.
\<close>

theorem reconciliation_appends_missing_witness:
  "getOrCreateBanditState (ARMS None) ''c1''
     \<lparr>docs = [''c1'' \<mapsto> [\<lparr>ArmStats.armId = ''unified_base'', alpha = 3, beta = 2, pulls = 3\<rparr>]],
      writes = 4\<rparr>
   = (Some [\<lparr>ArmStats.armId = ''unified_base'', alpha = 3, beta = 2, pulls = 3\<rparr>,
            \<lparr>ArmStats.armId = ''unified_strict_json'', alpha = 1, beta = 1, pulls = 0\<rparr>],
      \<lparr>docs = [''c1'' \<mapsto>
          [\<lparr>ArmStats.armId = ''unified_base'', alpha = 3, beta = 2, pulls = 3\<rparr>,
           \<lparr>ArmStats.armId = ''unified_strict_json'', alpha = 1, beta = 1, pulls = 0\<rparr>]],
        writes = 5\<rparr>)
   \<and> getOrCreateBanditState (ARMS None) ''c1''
       \<lparr>docs = [''c1'' \<mapsto>
          [\<lparr>ArmStats.armId = ''unified_base'', alpha = 3, beta = 2, pulls = 3\<rparr>,
           \<lparr>ArmStats.armId = ''unified_strict_json'', alpha = 1, beta = 1, pulls = 0\<rparr>]],
        writes = 5\<rparr>
     = (Some [\<lparr>ArmStats.armId = ''unified_base'', alpha = 3, beta = 2, pulls = 3\<rparr>,
              \<lparr>ArmStats.armId = ''unified_strict_json'', alpha = 1, beta = 1, pulls = 0\<rparr>],
        \<lparr>docs = [''c1'' \<mapsto>
          [\<lparr>ArmStats.armId = ''unified_base'', alpha = 3, beta = 2, pulls = 3\<rparr>,
           \<lparr>ArmStats.armId = ''unified_strict_json'', alpha = 1, beta = 1, pulls = 0\<rparr>]],
          writes = 5\<rparr>)"
proof -
  let ?a = "\<lparr>ArmStats.armId = ''unified_base'', alpha = 3, beta = 2, pulls = 3\<rparr>"
  let ?st = "\<lparr>docs = [''c1'' \<mapsto> [?a]], writes = 4\<rparr>"
  have stored: "docs ?st ''c1'' = Some [?a]" by simp
  have missing: "missingArms (ARMS None) [?a]
      = [\<lparr>ArmConfig.armId = ''unified_strict_json'', stage = ''unified'',
          modelName = ''gemini-2.5-flash'', notes = ''Stricter JSON-only response'',
          temperature = 5 / 100\<rparr>]"
    by (simp add: missingArms_def ARMS_def geminiModel_def)
  note t = reconciliation_appends_missing
             [OF stored, of "ARMS None" "\<lambda>_ _ _. 0" None "''unified_base''" 1]
  have first: "getOrCreateBanditState (ARMS None) ''c1'' ?st =
      (Some [?a, \<lparr>ArmStats.armId = ''unified_strict_json'', alpha = 1, beta = 1, pulls = 0\<rparr>],
       \<lparr>docs = [''c1'' \<mapsto>
          [?a, \<lparr>ArmStats.armId = ''unified_strict_json'', alpha = 1, beta = 1, pulls = 0\<rparr>]],
        writes = 5\<rparr>)"
    using conjunct1[OF t] unfolding missing by (simp add: defaultStats_def save_def)
  have again: "getOrCreateBanditState (ARMS None) ''c1''
      (snd (getOrCreateBanditState (ARMS None) ''c1'' ?st))
      = getOrCreateBanditState (ARMS None) ''c1'' ?st"
    using t by blast
  from again show ?thesis unfolding first by simp
qed

text \<open>
  C8. \<^verbatim>\<open>chooseArm\<close> leaves the store exactly as the load of the conversation's state leaves it,
  whatever the sampler returns and whether or not the stage has arms: the documents of other
  conversations are untouched, every array that was stored is still there with its entries
  unchanged, followed at most by new entries at (1, 1, 0), and a conversation without
  document gets one with every registry arm at (1, 1, 0).
\<close>

theorem chooseArm_keeps_statistics:
  "snd (chooseArm reg smp c sg st) = snd (getOrCreateBanditState reg c st)
   \<and> (\<forall>c'. c' \<noteq> c \<longrightarrow> docs (snd (chooseArm reg smp c sg st)) c' = docs st c')
   \<and> (\<forall>c' arms. docs st c' = Some arms \<longrightarrow>
         (\<exists>new. docs (snd (chooseArm reg smp c sg st)) c' = Some (arms @ new)
                \<and> (\<forall>s \<in> set new. alpha s = 1 \<and> beta s = 1 \<and> pulls s = 0)))
   \<and> (docs st c = None \<longrightarrow>
         docs (snd (chooseArm reg smp c sg st)) c = Some (map defaultStats reg))"
proof -
  have "docs st c = None \<longrightarrow>
      docs (snd (getOrCreateBanditState reg c st)) c = Some (map defaultStats reg)"
    by (simp add: getOrCreate_docs)
  then show ?thesis
    unfolding chooseArm_store using getOrCreate_keeps getOrCreate_other by blast
qed

text \<open>
  A conversation with statistics (3, 2, 3) and (1, 4, 3): a selection, whichever arm it
  picks, leaves the document as it was.
\<close>

theorem chooseArm_keeps_statistics_witness:
  "docs (snd (chooseArm (ARMS None) (\<lambda>i a b. 1 / 2) ''c1'' (Some ''unified'')
       \<lparr>docs = [''c1'' \<mapsto>
          [\<lparr>ArmStats.armId = ''unified_base'', alpha = 3, beta = 2, pulls = 3\<rparr>,
           \<lparr>ArmStats.armId = ''unified_strict_json'', alpha = 1, beta = 4, pulls = 3\<rparr>]],
        writes = 7\<rparr>)) ''c1''
   = Some [\<lparr>ArmStats.armId = ''unified_base'', alpha = 3, beta = 2, pulls = 3\<rparr>,
           \<lparr>ArmStats.armId = ''unified_strict_json'', alpha = 1, beta = 4, pulls = 3\<rparr>]
   \<and> docs (snd (chooseArm (ARMS None) (\<lambda>i a b. 1 / 2) ''c1'' (Some ''unified'')
       \<lparr>docs = [''c1'' \<mapsto>
          [\<lparr>ArmStats.armId = ''unified_base'', alpha = 3, beta = 2, pulls = 3\<rparr>,
           \<lparr>ArmStats.armId = ''unified_strict_json'', alpha = 1, beta = 4, pulls = 3\<rparr>]],
        writes = 7\<rparr>)) ''c2'' = None"
proof -
  let ?arms = "[\<lparr>ArmStats.armId = ''unified_base'', alpha = 3, beta = 2, pulls = 3\<rparr>,
                \<lparr>ArmStats.armId = ''unified_strict_json'', alpha = 1, beta = 4, pulls = 3\<rparr>]"
  let ?st = "\<lparr>docs = [''c1'' \<mapsto> ?arms], writes = 7\<rparr>"
  note t = chooseArm_keeps_statistics[of "ARMS None" "\<lambda>i a b. 1 / 2" "''c1''" "Some ''unified''" ?st]
  have store: "snd (chooseArm (ARMS None) (\<lambda>i a b. 1 / 2) ''c1'' (Some ''unified'') ?st)
      = snd (getOrCreateBanditState (ARMS None) ''c1'' ?st)"
    using t[THEN conjunct1] .
  have other: "docs (snd (chooseArm (ARMS None) (\<lambda>i a b. 1 / 2) ''c1'' (Some ''unified'') ?st))
      ''c2'' = docs ?st ''c2''"
    using t[THEN conjunct2, THEN conjunct1, rule_format, of "''c2''"] by simp
  have stored: "docs ?st ''c1'' = Some ?arms" by simp
  from t[THEN conjunct2, THEN conjunct2, THEN conjunct1, rule_format, OF stored]
  obtain new where new:
    "docs (snd (chooseArm (ARMS None) (\<lambda>i a b. 1 / 2) ''c1'' (Some ''unified'') ?st)) ''c1''
       = Some (?arms @ new)"
    by blast
  have "docs (snd (getOrCreateBanditState (ARMS None) ''c1'' ?st)) ''c1'' = Some ?arms"
    by (simp add: getOrCreateBanditState_def findOne_def reconcile_def ARMS_def Let_def)
  with new other show ?thesis unfolding store by simp
qed

lemma statsMap_foldl:
  "foldl (\<lambda>acc arm. acc(ArmStats.armId arm \<mapsto> (alpha arm, beta arm, pulls arm))) m arms
     = (\<lambda>aid. case find (\<lambda>s. ArmStats.armId s = aid) (rev arms) of
                 None \<Rightarrow> m aid
               | Some s \<Rightarrow> Some (alpha s, beta s, pulls s))"
proof (induction arms rule: rev_induct)
  case Nil
  then show ?case by simp
next
  case (snoc x xs)
  then show ?case by (auto simp: fun_eq_iff)
qed

lemma getOrCreate_complete:
  "docs st c = Some stored \<Longrightarrow> missingArms reg stored = [] \<Longrightarrow>
     getOrCreateBanditState reg c st = (Some stored, st)"
  by (simp add: getOrCreate_stored)

text \<open>
  C10, as the claim states it, fails: \<^verbatim>\<open>getBanditStats\<close> loads the state with
  \<^verbatim>\<open>getOrCreateBanditState\<close>, which creates the document of a conversation that has none.
\<close>

theorem getBanditStats_creates_document:
  "docs emptyStore ''c1'' = None
   \<and> snd (getBanditStats (ARMS None) ''c1'' emptyStore) =
       \<lparr>docs = [''c1'' \<mapsto>
          [\<lparr>ArmStats.armId = ''unified_base'', alpha = 1, beta = 1, pulls = 0\<rparr>,
           \<lparr>ArmStats.armId = ''unified_strict_json'', alpha = 1, beta = 1, pulls = 0\<rparr>]],
        writes = 1\<rparr>"
  by (simp add: getBanditStats_def getOrCreateBanditState_def findOne_def saveNew_def
      emptyStore_def ARMS_def defaultStats_def Let_def)

text \<open>
  C10, amended. \<^verbatim>\<open>getBanditStats\<close> returns the statistics of the loaded state by arm id (of
  the last entry, should an id occur twice). It leaves the store as the load leaves it:
  other conversations are untouched, the stored entries of every array are unchanged and
  followed at most by new entries at (1, 1, 0), and when the conversation has a document
  with every registry arm nothing is written at all.
\<close>

theorem getBanditStats_reads_loaded_state:
  "\<exists>arms. fst (getOrCreateBanditState reg c st) = Some arms
     \<and> fst (getBanditStats reg c st) =
         Inr (\<lambda>aid. map_option (\<lambda>s. (alpha s, beta s, pulls s))
                      (find (\<lambda>s. ArmStats.armId s = aid) (rev arms)))
     \<and> snd (getBanditStats reg c st) = snd (getOrCreateBanditState reg c st)
     \<and> (\<forall>c'. c' \<noteq> c \<longrightarrow> docs (snd (getBanditStats reg c st)) c' = docs st c')
     \<and> (\<forall>c' stored. docs st c' = Some stored \<longrightarrow>
           (\<exists>new. docs (snd (getBanditStats reg c st)) c' = Some (stored @ new)
                  \<and> (\<forall>s \<in> set new. alpha s = 1 \<and> beta s = 1 \<and> pulls s = 0)))
     \<and> (\<forall>stored. docs st c = Some stored \<longrightarrow> missingArms reg stored = [] \<longrightarrow>
           snd (getBanditStats reg c st) = st)"
proof -
  obtain arms where arms: "fst (getOrCreateBanditState reg c st) = Some arms"
    using getOrCreate_loaded by blast
  then obtain st1 where load: "getOrCreateBanditState reg c st = (Some arms, st1)"
    by (cases "getOrCreateBanditState reg c st") simp
  have result: "fst (getBanditStats reg c st) =
      Inr (\<lambda>aid. map_option (\<lambda>s. (alpha s, beta s, pulls s))
                   (find (\<lambda>s. ArmStats.armId s = aid) (rev arms)))"
    by (simp add: getBanditStats_def load statsMap_foldl fun_eq_iff split: option.splits)
  have complete: "\<forall>stored. docs st c = Some stored \<longrightarrow> missingArms reg stored = [] \<longrightarrow>
      snd (getOrCreateBanditState reg c st) = st"
    by (simp add: getOrCreate_complete)
  show ?thesis
    unfolding getBanditStats_store
    using arms result[unfolded getBanditStats_store] complete getOrCreate_keeps getOrCreate_other
    by (intro exI[of _ arms]) blast
qed

theorem getBanditStats_reads_loaded_state_witness:
  "fst (getBanditStats (ARMS None) ''c1''
       \<lparr>docs = [''c1'' \<mapsto>
          [\<lparr>ArmStats.armId = ''unified_base'', alpha = 3, beta = 2, pulls = 3\<rparr>,
           \<lparr>ArmStats.armId = ''unified_strict_json'', alpha = 1, beta = 4, pulls = 3\<rparr>]],
        writes = 7\<rparr>)
   = Inr [''unified_base'' \<mapsto> (3, 2, 3), ''unified_strict_json'' \<mapsto> (1, 4, 3)]
   \<and> snd (getBanditStats (ARMS None) ''c1''
       \<lparr>docs = [''c1'' \<mapsto>
          [\<lparr>ArmStats.armId = ''unified_base'', alpha = 3, beta = 2, pulls = 3\<rparr>,
           \<lparr>ArmStats.armId = ''unified_strict_json'', alpha = 1, beta = 4, pulls = 3\<rparr>]],
        writes = 7\<rparr>)
     = \<lparr>docs = [''c1'' \<mapsto>
          [\<lparr>ArmStats.armId = ''unified_base'', alpha = 3, beta = 2, pulls = 3\<rparr>,
           \<lparr>ArmStats.armId = ''unified_strict_json'', alpha = 1, beta = 4, pulls = 3\<rparr>]],
        writes = 7\<rparr>"
proof -
  let ?arms = "[\<lparr>ArmStats.armId = ''unified_base'', alpha = 3, beta = 2, pulls = 3\<rparr>,
                \<lparr>ArmStats.armId = ''unified_strict_json'', alpha = 1, beta = 4, pulls = 3\<rparr>]"
  let ?st = "\<lparr>docs = [''c1'' \<mapsto> ?arms], writes = 7\<rparr>"
  have stored: "docs ?st ''c1'' = Some ?arms" by simp
  have complete: "missingArms (ARMS None) ?arms = []"
    by (simp add: missingArms_def ARMS_def)
  have load: "fst (getOrCreateBanditState (ARMS None) ''c1'' ?st) = Some ?arms"
    using getOrCreate_complete[OF stored complete] by simp
  from getBanditStats_reads_loaded_state[of "ARMS None" "''c1''" ?st]
  obtain arms where a: "fst (getOrCreateBanditState (ARMS None) ''c1'' ?st) = Some arms"
    and res: "fst (getBanditStats (ARMS None) ''c1'' ?st) =
         Inr (\<lambda>aid. map_option (\<lambda>s. (alpha s, beta s, pulls s))
                      (find (\<lambda>s. ArmStats.armId s = aid) (rev arms)))"
    and same: "\<forall>stored. docs ?st ''c1'' = Some stored \<longrightarrow> missingArms (ARMS None) stored = [] \<longrightarrow>
           snd (getBanditStats (ARMS None) ''c1'' ?st) = ?st"
    by blast
  from a load have "arms = ?arms" by simp
  with res have "fst (getBanditStats (ARMS None) ''c1'' ?st)
      = Inr [''unified_base'' \<mapsto> (3, 2, 3), ''unified_strict_json'' \<mapsto> (1, 4, 3)]"
    by (auto simp: fun_eq_iff)
  moreover from same stored complete
  have "snd (getBanditStats (ARMS None) ''c1'' ?st) = ?st" by blast
  ultimately show ?thesis by simp
qed

lemma loaded_armIds:
  assumes "fst (getOrCreateBanditState reg c st) = Some arms"
    and "s \<in> set arms"
  shows "ArmStats.armId s \<in> ArmConfig.armId ` set reg
         \<or> (\<exists>stored. docs st c = Some stored \<and> ArmStats.armId s \<in> ArmStats.armId ` set stored)"
proof (cases "docs st c")
  case None
  with assms show ?thesis by (auto simp: getOrCreate_fresh defaultStats_def)
next
  case (Some stored)
  with assms show ?thesis
    by (auto simp: getOrCreate_stored missingArms_def defaultStats_def)
qed

text \<open>
  C5, as the claim states it, fails: \<^verbatim>\<open>updateArm\<close> loads the state before it looks the arm
  up, and the load of a conversation without document writes one.
\<close>

theorem updateArm_unknown_arm_creates_document:
  "docs emptyStore ''c1'' = None
   \<and> updateArm (ARMS None) ''c1'' ''no_such_arm'' 1 emptyStore =
       (Inr None,
        \<lparr>docs = [''c1'' \<mapsto>
           [\<lparr>ArmStats.armId = ''unified_base'', alpha = 1, beta = 1, pulls = 0\<rparr>,
            \<lparr>ArmStats.armId = ''unified_strict_json'', alpha = 1, beta = 1, pulls = 0\<rparr>]],
         writes = 1\<rparr>)"
  by (simp add: updateArm_def getOrCreateBanditState_def findOne_def saveNew_def
      emptyStore_def ARMS_def defaultStats_def Let_def)

text \<open>
  C5, amended. For an arm id that neither the registry nor the stored array of the
  conversation has, \<^verbatim>\<open>updateArm\<close> returns \<^verbatim>\<open>null\<close> and leaves the store as the load of the
  state leaves it: other conversations are untouched, the stored entries of every array are
  unchanged and followed at most by new entries at (1, 1, 0), and when the conversation
  has a document with every registry arm nothing is written at all.
\<close>

theorem updateArm_unknown_arm:
  assumes "aid \<notin> ArmConfig.armId ` set reg"
    and "\<forall>stored. docs st c = Some stored \<longrightarrow> aid \<notin> ArmStats.armId ` set stored"
  shows "updateArm reg c aid r st = (Inr None, snd (getOrCreateBanditState reg c st))
     \<and> (\<forall>c'. c' \<noteq> c \<longrightarrow> docs (snd (updateArm reg c aid r st)) c' = docs st c')
     \<and> (\<forall>c' stored. docs st c' = Some stored \<longrightarrow>
           (\<exists>new. docs (snd (updateArm reg c aid r st)) c' = Some (stored @ new)
                  \<and> (\<forall>s \<in> set new. alpha s = 1 \<and> beta s = 1 \<and> pulls s = 0)))
     \<and> (\<forall>stored. docs st c = Some stored \<longrightarrow> missingArms reg stored = [] \<longrightarrow>
           snd (updateArm reg c aid r st) = st)"
proof -
  obtain arms where arms: "fst (getOrCreateBanditState reg c st) = Some arms"
    using getOrCreate_loaded by blast
  then obtain st1 where load: "getOrCreateBanditState reg c st = (Some arms, st1)"
    by (cases "getOrCreateBanditState reg c st") simp
  have "\<forall>s \<in> set arms. ArmStats.armId s \<noteq> aid"
    using loaded_armIds[OF arms] assms by blast
  then have "find (\<lambda>a. ArmStats.armId a = aid) arms = None"
    by (simp add: find_None_iff)
  then have res: "updateArm reg c aid r st = (Inr None, snd (getOrCreateBanditState reg c st))"
    by (simp add: updateArm_def load)
  have complete: "\<forall>stored. docs st c = Some stored \<longrightarrow> missingArms reg stored = [] \<longrightarrow>
      snd (getOrCreateBanditState reg c st) = st"
    by (simp add: getOrCreate_complete)
  show ?thesis
    unfolding res snd_conv
    using complete getOrCreate_keeps getOrCreate_other by blast
qed

theorem updateArm_unknown_arm_witness:
  "updateArm (ARMS None) ''c1'' ''no_such_arm'' 1
       \<lparr>docs = [''c1'' \<mapsto>
          [\<lparr>ArmStats.armId = ''unified_base'', alpha = 3, beta = 2, pulls = 3\<rparr>,
           \<lparr>ArmStats.armId = ''unified_strict_json'', alpha = 1, beta = 4, pulls = 3\<rparr>]],
        writes = 7\<rparr>
   = (Inr None,
      \<lparr>docs = [''c1'' \<mapsto>
          [\<lparr>ArmStats.armId = ''unified_base'', alpha = 3, beta = 2, pulls = 3\<rparr>,
           \<lparr>ArmStats.armId = ''unified_strict_json'', alpha = 1, beta = 4, pulls = 3\<rparr>]],
        writes = 7\<rparr>)"
proof -
  let ?arms = "[\<lparr>ArmStats.armId = ''unified_base'', alpha = 3, beta = 2, pulls = 3\<rparr>,
                \<lparr>ArmStats.armId = ''unified_strict_json'', alpha = 1, beta = 4, pulls = 3\<rparr>]"
  let ?st = "\<lparr>docs = [''c1'' \<mapsto> ?arms], writes = 7\<rparr>"
  have unregistered: "''no_such_arm'' \<notin> ArmConfig.armId ` set (ARMS None)"
    by (simp add: ARMS_def)
  have unstored: "\<forall>stored. docs ?st ''c1'' = Some stored \<longrightarrow>
      ''no_such_arm'' \<notin> ArmStats.armId ` set stored"
    by auto
  have stored: "docs ?st ''c1'' = Some ?arms" by simp
  have complete: "missingArms (ARMS None) ?arms = []"
    by (simp add: missingArms_def ARMS_def)
  note t = updateArm_unknown_arm[OF unregistered unstored, of 1]
  have "updateArm (ARMS None) ''c1'' ''no_such_arm'' 1 ?st
      = (Inr None, snd (getOrCreateBanditState (ARMS None) ''c1'' ?st))"
    using t[THEN conjunct1] .
  then show ?thesis using getOrCreate_complete[OF stored complete] by simp
qed

lemma defaultStats_invariant: "armInvariant (defaultStats a)"
  by (simp add: armInvariant_def defaultStats_def)

lemma increment_invariant: "armInvariant s \<Longrightarrow> armInvariant (increment r s)"
  by (simp add: armInvariant_def increment_def Let_def)

lemma set_updateFirst: "set (updateFirst P f xs) \<subseteq> set xs \<union> f ` set xs"
  by (induction xs) auto

lemma getOrCreate_invariant:
  assumes "storeInvariant st"
  shows "storeInvariant (snd (getOrCreateBanditState reg c st))"
  unfolding storeInvariant_def
proof (intro allI impI ballI)
  fix c' arms s
  assume d: "docs (snd (getOrCreateBanditState reg c st)) c' = Some arms" and s: "s \<in> set arms"
  show "armInvariant s"
  proof (cases "c' = c")
    case False
    with d have "docs st c' = Some arms" by (simp add: getOrCreate_docs)
    with assms s show ?thesis unfolding storeInvariant_def by blast
  next
    case True
    show ?thesis
    proof (cases "docs st c")
      case None
      with d True s show ?thesis
        by (auto simp: getOrCreate_docs defaultStats_invariant)
    next
      case (Some stored)
      with assms have "\<forall>x \<in> set stored. armInvariant x"
        unfolding storeInvariant_def by blast
      with d True s Some show ?thesis
        by (auto simp: getOrCreate_docs defaultStats_invariant)
    qed
  qed
qed

lemma updateArm_invariant:
  assumes "storeInvariant st"
  shows "storeInvariant (snd (updateArm reg c aid r st))"
proof -
  obtain state st1 where load: "getOrCreateBanditState reg c st = (state, st1)"
    by (cases "getOrCreateBanditState reg c st")
  have inv1: "storeInvariant st1"
    using getOrCreate_invariant[OF assms, of reg c] load by simp
  show ?thesis
  proof (cases state)
    case None
    with load inv1 show ?thesis by (simp add: updateArm_def)
  next
    case (Some arms)
    have stored: "docs st1 c = Some arms"
      using getOrCreate_state[of reg c st] load Some by simp
    show ?thesis
    proof (cases "find (\<lambda>a. ArmStats.armId a = aid) arms")
      case None
      with load Some inv1 show ?thesis by (simp add: updateArm_def)
    next
      case (Some armStats)
      let ?arms' = "updateFirst (\<lambda>a. ArmStats.armId a = aid) (increment r) arms"
      have res: "snd (updateArm reg c aid r st) = save st1 c ?arms'"
        using load \<open>state = Some arms\<close> Some by (simp add: updateArm_def Let_def)
      have old: "\<forall>x \<in> set arms. armInvariant x"
        using inv1 stored unfolding storeInvariant_def by blast
      have "\<forall>x \<in> set ?arms'. armInvariant x"
        using old set_updateFirst[of "\<lambda>a. ArmStats.armId a = aid" "increment r" arms]
          increment_invariant by blast
      then show ?thesis
        using inv1 unfolding res storeInvariant_def save_def by auto
    qed
  qed
qed

lemma reconcile_invariant:
  assumes "\<forall>x \<in> set stored. armInvariant x"
  shows "\<forall>x \<in> set (fst (reconcile reg stored)). armInvariant x"
  using assms by (auto simp: reconcile_eq defaultStats_invariant)

lemma reachable_invariant: "reachable st \<Longrightarrow> storeInvariant st"
proof (induction rule: reachable.induct)
  case reachable_empty
  then show ?case by (simp add: storeInvariant_def emptyStore_def)
next
  case (reachable_choose st reg smp c sg)
  then show ?case by (simp add: chooseArm_store getOrCreate_invariant)
next
  case (reachable_update st reg c a r)
  then show ?case by (simp add: updateArm_invariant)
next
  case (reachable_stats st reg c)
  then show ?case by (simp add: getBanditStats_store getOrCreate_invariant)
qed

text \<open>
  Reachable stores do exercise the reconciliation: three rewards under a registry with
  only the first arm leave a document that lacks the second arm of the full registry.
\<close>

lemma reachable_with_missing_arm:
  "reachable
     \<lparr>docs = [''c1'' \<mapsto> [\<lparr>ArmStats.armId = ''unified_base'', alpha = 3, beta = 2, pulls = 3\<rparr>]],
      writes = 4\<rparr>
   \<and> missingArms (ARMS None)
       [\<lparr>ArmStats.armId = ''unified_base'', alpha = 3, beta = 2, pulls = 3\<rparr>] \<noteq> []"
proof -
  let ?reg = "take 1 (ARMS None)"
  let ?st = "snd (updateArm ?reg ''c1'' ''unified_base'' 0
               (snd (updateArm ?reg ''c1'' ''unified_base'' 1
                  (snd (updateArm ?reg ''c1'' ''unified_base'' 1 emptyStore)))))"
  have "reachable ?st"
    by (intro reachable_update reachable_empty)
  moreover have "?st =
      \<lparr>docs = [''c1'' \<mapsto> [\<lparr>ArmStats.armId = ''unified_base'', alpha = 3, beta = 2, pulls = 3\<rparr>]],
       writes = 4\<rparr>"
    by (simp add: updateArm_def getOrCreateBanditState_def findOne_def saveNew_def save_def
        reconcile_def emptyStore_def ARMS_def defaultStats_def increment_def Let_def)
  ultimately show ?thesis by (simp add: missingArms_def ARMS_def)
qed

text \<open>
  C2. In every store that is reachable from the empty one by calls of \<^verbatim>\<open>chooseArm\<close>,
  \<^verbatim>\<open>updateArm\<close> and \<^verbatim>\<open>getBanditStats\<close> (with any arguments, any outcome of the sampler,
  and a registry that may change from call to call), every entry of every document has
  \<open>alpha \<ge> 1\<close>, \<open>beta \<ge> 1\<close>, \<open>pulls \<ge> 0\<close> and \<open>pulls = (alpha - 1) + (beta - 1)\<close>.
  The invariant is established at creation: the entry that a registry arm starts with is
  (1, 1, 0) and satisfies it. It is preserved by reconciliation: the array that
  \<open>reconcile\<close> returns for a stored array and any registry satisfies it when the stored
  array does, and so does the store after a load. It is preserved by every call of
  \<^verbatim>\<open>updateArm\<close>, whatever the arm and the reward.
\<close>

theorem reachable_statistics_invariant:
  assumes "reachable st" and "docs st c = Some arms" and "s \<in> set arms"
  shows "(1 \<le> alpha s \<and> 1 \<le> beta s \<and> 0 \<le> pulls s \<and> pulls s = (alpha s - 1) + (beta s - 1))
     \<and> (\<forall>arm. defaultStats arm =
                 \<lparr>ArmStats.armId = ArmConfig.armId arm, alpha = 1, beta = 1, pulls = 0\<rparr>
               \<and> armInvariant (defaultStats arm))
     \<and> (\<forall>reg stored. (\<forall>x \<in> set stored. armInvariant x) \<longrightarrow>
           (\<forall>x \<in> set (fst (reconcile reg stored)). armInvariant x))
     \<and> (\<forall>reg c' st'. storeInvariant st' \<longrightarrow>
           storeInvariant (snd (getOrCreateBanditState reg c' st')))
     \<and> (\<forall>reg c' aid r st'. storeInvariant st' \<longrightarrow>
           storeInvariant (snd (updateArm reg c' aid r st')))
     \<and> (\<forall>reg c'. storeInvariant (snd (getOrCreateBanditState reg c' st)))
     \<and> (\<forall>reg c' aid r. storeInvariant (snd (updateArm reg c' aid r st)))"
proof -
  from assms(1) have inv: "storeInvariant st" by (rule reachable_invariant)
  with assms(2,3) have "armInvariant s" unfolding storeInvariant_def by blast
  then have entry: "1 \<le> alpha s \<and> 1 \<le> beta s \<and> 0 \<le> pulls s
      \<and> pulls s = (alpha s - 1) + (beta s - 1)"
    by (simp add: armInvariant_def)
  have created: "\<forall>arm. defaultStats arm =
        \<lparr>ArmStats.armId = ArmConfig.armId arm, alpha = 1, beta = 1, pulls = 0\<rparr>
      \<and> armInvariant (defaultStats arm)"
    by (simp add: defaultStats_invariant) (simp add: defaultStats_def)
  have reconciled: "\<forall>reg stored. (\<forall>x \<in> set stored. armInvariant x) \<longrightarrow>
      (\<forall>x \<in> set (fst (reconcile reg stored)). armInvariant x)"
    using reconcile_invariant by blast
  have loaded: "\<forall>reg c' st'. storeInvariant st' \<longrightarrow>
      storeInvariant (snd (getOrCreateBanditState reg c' st'))"
    using getOrCreate_invariant by blast
  have updated: "\<forall>reg c' aid r st'. storeInvariant st' \<longrightarrow>
      storeInvariant (snd (updateArm reg c' aid r st'))"
    using updateArm_invariant by blast
  from entry created reconciled loaded updated inv show ?thesis by blast
qed

text \<open>
  A document written when the registry had only its first arm, with one reward for that
  arm, and read after the second arm was added: the read reconciles the document, the
  store it leaves is reachable, and both entries, the rewarded one at (2, 1, 1) and the
  appended one at (1, 1, 0), satisfy the invariant.
\<close>

theorem reachable_statistics_invariant_witness:
  "reachable (snd (getBanditStats (ARMS None) ''c1''
       (snd (updateArm (take 1 (ARMS None)) ''c1'' ''unified_base'' 1 emptyStore))))
   \<and> docs (snd (updateArm (take 1 (ARMS None)) ''c1'' ''unified_base'' 1 emptyStore)) ''c1'' =
       Some [\<lparr>ArmStats.armId = ''unified_base'', alpha = 2, beta = 1, pulls = 1\<rparr>]
   \<and> docs (snd (getBanditStats (ARMS None) ''c1''
       (snd (updateArm (take 1 (ARMS None)) ''c1'' ''unified_base'' 1 emptyStore)))) ''c1'' =
       Some [\<lparr>ArmStats.armId = ''unified_base'', alpha = 2, beta = 1, pulls = 1\<rparr>,
             \<lparr>ArmStats.armId = ''unified_strict_json'', alpha = 1, beta = 1, pulls = 0\<rparr>]
   \<and> 1 \<le> alpha \<lparr>ArmStats.armId = ''unified_base'', alpha = 2, beta = 1, pulls = 1\<rparr>
   \<and> 1 \<le> beta \<lparr>ArmStats.armId = ''unified_base'', alpha = 2, beta = 1, pulls = 1\<rparr>
   \<and> 0 \<le> pulls \<lparr>ArmStats.armId = ''unified_base'', alpha = 2, beta = 1, pulls = 1\<rparr>
   \<and> pulls \<lparr>ArmStats.armId = ''unified_base'', alpha = 2, beta = 1, pulls = 1\<rparr>
       = (alpha \<lparr>ArmStats.armId = ''unified_base'', alpha = 2, beta = 1, pulls = 1\<rparr> - 1)
         + (beta \<lparr>ArmStats.armId = ''unified_base'', alpha = 2, beta = 1, pulls = 1\<rparr> - 1)
   \<and> armInvariant \<lparr>ArmStats.armId = ''unified_strict_json'', alpha = 1, beta = 1, pulls = 0\<rparr>"
proof -
  let ?a = "\<lparr>ArmStats.armId = ''unified_base'', alpha = 2, beta = 1, pulls = 1\<rparr>"
  let ?b = "\<lparr>ArmStats.armId = ''unified_strict_json'', alpha = 1, beta = 1, pulls = 0\<rparr>"
  let ?st0 = "snd (updateArm (take 1 (ARMS None)) ''c1'' ''unified_base'' 1 emptyStore)"
  let ?st1 = "snd (getBanditStats (ARMS None) ''c1'' ?st0)"
  have reach: "reachable ?st1"
    by (rule reachable_stats[OF reachable_update[OF reachable_empty]])
  have before: "docs ?st0 ''c1'' = Some [?a]"
    by (simp add: updateArm_def getOrCreateBanditState_def findOne_def saveNew_def save_def
        emptyStore_def ARMS_def defaultStats_def increment_def Let_def)
  have missing: "missingArms (ARMS None) [?a] = [ARMS None ! 1]"
    by (simp add: missingArms_def ARMS_def)
  have after: "docs ?st1 ''c1'' = Some [?a, ?b]"
    using getOrCreate_stored[OF before, of "ARMS None"] missing
    by (simp add: getBanditStats_store save_def defaultStats_def ARMS_def)
  have mem: "?a \<in> set [?a, ?b]" by simp
  note t = reachable_statistics_invariant[OF reach after mem]
  have appended: "armInvariant ?b"
    using t[THEN conjunct2, THEN conjunct1, rule_format,
            of "\<lparr>ArmConfig.armId = ''unified_strict_json'', stage = ''unified'',
                 modelName = ''gemini-2.5-flash'', notes = ''Stricter JSON-only response'',
                 temperature = 5 / 100\<rparr>"]
    by (simp add: defaultStats_def)
  from t[THEN conjunct1] reach before after appended show ?thesis by simp
qed

lemma hd_insort_key:
  "hd (insort_key f x ys) = (if ys = [] \<or> f x \<le> f (hd ys) then x else hd ys)"
  by (cases ys) auto

lemma hd_sort_key_first_least:
  fixes f :: "'a \<Rightarrow> 'b::linorder"
  assumes "xs \<noteq> []"
  shows "\<exists>i<length xs. hd (sort_key f xs) = xs ! i
           \<and> (\<forall>j<length xs. f (xs ! i) \<le> f (xs ! j))
           \<and> (\<forall>j<i. f (xs ! i) < f (xs ! j))"
  using assms
proof (induction xs)
  case Nil
  then show ?case by simp
next
  case (Cons x xs)
  show ?case
  proof (cases "xs = []")
    case True
    then show ?thesis by simp
  next
    case False
    from Cons.IH[OF False] obtain i where i: "i < length xs"
      "hd (sort_key f xs) = xs ! i"
      "\<forall>j<length xs. f (xs ! i) \<le> f (xs ! j)"
      "\<forall>j<i. f (xs ! i) < f (xs ! j)" by blast
    have nonempty: "sort_key f xs \<noteq> []"
      using False length_sort[of f xs] by (metis length_0_conv)
    show ?thesis
    proof (cases "f x \<le> f (xs ! i)")
      case True
      then have "hd (sort_key f (x # xs)) = (x # xs) ! 0"
        using i(2) by (simp add: hd_insort_key)
      moreover have "\<forall>j<length (x # xs). f ((x # xs) ! 0) \<le> f ((x # xs) ! j)"
      proof (intro allI impI)
        fix j assume "j < length (x # xs)"
        then show "f ((x # xs) ! 0) \<le> f ((x # xs) ! j)"
          using True i(3) by (cases j) (auto intro: order_trans)
      qed
      ultimately show ?thesis by (intro exI[of _ 0]) simp
    next
      case greater: False
      then have "hd (sort_key f (x # xs)) = (x # xs) ! Suc i"
        using i(2) nonempty by (simp add: hd_insort_key)
      moreover have "\<forall>j<length (x # xs). f ((x # xs) ! Suc i) \<le> f ((x # xs) ! j)"
      proof (intro allI impI)
        fix j assume "j < length (x # xs)"
        then show "f ((x # xs) ! Suc i) \<le> f ((x # xs) ! j)"
          using greater i(3) by (cases j) auto
      qed
      moreover have "\<forall>j<Suc i. f ((x # xs) ! Suc i) < f ((x # xs) ! j)"
      proof (intro allI impI)
        fix j assume "j < Suc i"
        then show "f ((x # xs) ! Suc i) < f ((x # xs) ! j)"
          using greater i(4) by (cases j) auto
      qed
      ultimately show ?thesis using i(1) by (intro exI[of _ "Suc i"]) simp
    qed
  qed
qed

lemma drawSamples_eq:
  "drawSamples smp arms cands =
     map (\<lambda>j. (cands ! j, drawnSample smp arms cands j)) [0..<length cands]"
  by (rule nth_equalityI)
     (auto simp: drawSamples_def drawnSample_def nth_enumerate_eq split: option.splits)

text \<open>
  C6. \<^verbatim>\<open>chooseArm\<close> draws one sample for each registry arm of the stage, in registry order,
  from the sampler called with that arm's \<^verbatim>\<open>alpha\<close> and \<^verbatim>\<open>beta\<close>, and returns
  \<^verbatim>\<open>{armId, modelName, temperature, notes}\<close> of a candidate whose sample no other sample
  exceeds and that every earlier candidate's sample is strictly below: the arm with the
  largest sample, and among equal largest samples the first in registry order.
\<close>

theorem chooseArm_picks_first_maximum:
  assumes "fst (getOrCreateBanditState reg c st) = Some arms"
    and "cands = filter (\<lambda>a. stage a = (case sg of None \<Rightarrow> ''unified'' | Some s \<Rightarrow> s)) reg"
    and "cands \<noteq> []"
  shows "drawSamples smp arms cands =
           map (\<lambda>j. (cands ! j, drawnSample smp arms cands j)) [0..<length cands]
     \<and> (\<exists>i<length cands.
           fst (chooseArm reg smp c sg st) =
             Inr \<lparr>ArmSelection.armId = ArmConfig.armId (cands ! i),
                  modelName = ArmConfig.modelName (cands ! i),
                  temperature = ArmConfig.temperature (cands ! i),
                  notes = ArmConfig.notes (cands ! i)\<rparr>
           \<and> (\<forall>j<length cands. drawnSample smp arms cands j \<le> drawnSample smp arms cands i)
           \<and> (\<forall>j<i. drawnSample smp arms cands j < drawnSample smp arms cands i))"
proof -
  let ?samples = "drawSamples smp arms cands"
  have len: "length ?samples = length cands" by (simp add: drawSamples_eq)
  have nth: "\<And>j. j < length cands \<Longrightarrow> ?samples ! j = (cands ! j, drawnSample smp arms cands j)"
    by (simp add: drawSamples_eq)
  from assms(3) len have "?samples \<noteq> []" by auto
  from hd_sort_key_first_least[OF this, of "\<lambda>p. - snd p"]
  obtain i where i: "i < length cands"
    "hd (sort_key (\<lambda>p. - snd p) ?samples) = ?samples ! i"
    "\<forall>j<length cands. - snd (?samples ! i) \<le> - snd (?samples ! j)"
    "\<forall>j<i. - snd (?samples ! i) < - snd (?samples ! j)"
    unfolding len by blast
  obtain st1 where load: "getOrCreateBanditState reg c st = (Some arms, st1)"
    using assms(1) by (cases "getOrCreateBanditState reg c st") simp
  have chosen: "fst (hd (sort_key (\<lambda>p. - snd p) ?samples)) = cands ! i"
    using i(1,2) nth by simp
  have result: "fst (chooseArm reg smp c sg st) =
      Inr \<lparr>ArmSelection.armId = ArmConfig.armId (cands ! i),
           modelName = ArmConfig.modelName (cands ! i),
           temperature = ArmConfig.temperature (cands ! i),
           notes = ArmConfig.notes (cands ! i)\<rparr>"
    using assms(2,3) chosen by (simp add: chooseArm_def load Let_def)
  have largest: "\<forall>j<length cands. drawnSample smp arms cands j \<le> drawnSample smp arms cands i"
    using i(1,3) nth by simp
  have first: "\<forall>j<i. drawnSample smp arms cands j < drawnSample smp arms cands i"
    using i(1,4) nth by simp
  from result largest first i(1) show ?thesis
    by (simp only: drawSamples_eq simp_thms) blast
qed

text \<open>
  Both arms of the registry at the prior and a sampler that returns the same value for
  both: the first arm of the registry, \<^verbatim>\<open>unified_base\<close>, is returned.
\<close>

theorem chooseArm_picks_first_maximum_witness:
  "fst (chooseArm (ARMS None) (\<lambda>i a b. 1 / 2) ''c1'' None emptyStore) =
     Inr \<lparr>ArmSelection.armId = ''unified_base'', modelName = ''gemini-2.5-flash'',
          temperature = 1 / 10, notes = ''Base unified prompt''\<rparr>"
proof -
  let ?arms = "[\<lparr>ArmStats.armId = ''unified_base'', alpha = 1, beta = 1, pulls = 0\<rparr>,
                \<lparr>ArmStats.armId = ''unified_strict_json'', alpha = 1, beta = 1, pulls = 0\<rparr>]"
  have load: "fst (getOrCreateBanditState (ARMS None) ''c1'' emptyStore) = Some ?arms"
    by (simp add: getOrCreateBanditState_def findOne_def saveNew_def emptyStore_def
        ARMS_def defaultStats_def Let_def)
  have cands: "ARMS None =
      filter (\<lambda>a. stage a = (case None of None \<Rightarrow> ''unified'' | Some s \<Rightarrow> s)) (ARMS None)"
    by (simp add: ARMS_def)
  have nonempty: "ARMS None \<noteq> []" by (simp add: ARMS_def)
  from chooseArm_picks_first_maximum[OF load cands nonempty, of "\<lambda>i a b. 1 / 2"]
  obtain i where i: "i < length (ARMS None)"
    "fst (chooseArm (ARMS None) (\<lambda>i a b. 1 / 2) ''c1'' None emptyStore) =
       Inr \<lparr>ArmSelection.armId = ArmConfig.armId (ARMS None ! i),
            modelName = ArmConfig.modelName (ARMS None ! i),
            temperature = ArmConfig.temperature (ARMS None ! i),
            notes = ArmConfig.notes (ARMS None ! i)\<rparr>"
    "\<forall>j<i. drawnSample (\<lambda>i a b. 1 / 2) ?arms (ARMS None) j
            < drawnSample (\<lambda>i a b. 1 / 2) ?arms (ARMS None) i"
    by blast
  have "i = 0"
  proof (rule ccontr)
    assume "i \<noteq> 0"
    with i(3) have "drawnSample (\<lambda>i a b. 1 / 2) ?arms (ARMS None) 0
        < drawnSample (\<lambda>i a b. 1 / 2) ?arms (ARMS None) i" by simp
    then show False by (simp add: drawnSample_def split: option.splits)
  qed
  with i(2) show ?thesis by (simp add: ARMS_def geminiModel_def)
qed

section \<open>Properties of the feedback endpoint\<close>

lemma resolveTarget_error:
  "resolveTarget db body a = Inl resp \<Longrightarrow> \<exists>n msg. resp = Error n msg"
  by (auto simp: resolveTarget_def split: option.splits if_splits)

lemma accessCheck_error:
  "accessCheck db user c = Some resp \<Longrightarrow> \<exists>n msg. resp = Error n msg"
  by (auto simp: accessCheck_def split: option.splits if_splits sum.splits)

lemma claimFeedback_rated:
  assumes "truthy (messageId body) = Some mid"
    and "messages db mid = Some m" and "feedback m = Some fb"
  shows "claimFeedback db body r a = Inl (AlreadyRated a r fb, db)"
  using assms by (simp add: claimFeedback_def findOneAndUpdate_def Let_def)

text \<open>
  C3. When the message that a feedback request names already has feedback, the request
  changes nothing in the database, in particular no arm's statistics, and is never answered
  with \<^verbatim>\<open>success\<close>; a request that is well-formed (an arm id, reward 0 or 1), names a chatbot
  message and passes the access check is answered \<^verbatim>\<open>already_rated\<close> with the feedback that
  the message has.
\<close>

theorem submitFeedback_already_rated:
  assumes "truthy (messageId body) = Some mid"
    and "messages db mid = Some m"
    and "feedback m = Some fb"
  shows "snd (submitFeedback reg body user db) = db
     \<and> (\<forall>a r c stats. fst (submitFeedback reg body user db) \<noteq> Success a r c stats)
     \<and> (\<forall>a r. arm_id body = Some a \<and> a \<noteq> [] \<and> reward body = Some r \<and> (r = 0 \<or> r = 1)
           \<and> sender m = Chatbot \<and> chat m \<noteq> [] \<and> accessCheck db user (chat m) = None \<longrightarrow>
           fst (submitFeedback reg body user db) =
             AlreadyRated (case truthy (Message.armId m) of None \<Rightarrow> a | Some ma \<Rightarrow> ma) r fb)"
proof -
  have gate: "\<And>r a. claimFeedback db body r a = Inl (AlreadyRated a r fb, db)"
    using assms by (rule claimFeedback_rated)
  have unchanged: "snd (submitFeedback reg body user db) = db"
    by (simp add: submitFeedback_def gate Let_def split: option.splits sum.splits prod.splits)
  have no_success: "\<forall>a r c stats. fst (submitFeedback reg body user db) \<noteq> Success a r c stats"
    by (auto simp: submitFeedback_def gate Let_def split: option.splits sum.splits prod.splits
        dest: resolveTarget_error accessCheck_error)
  have rated: "\<forall>a r. arm_id body = Some a \<and> a \<noteq> [] \<and> reward body = Some r \<and> (r = 0 \<or> r = 1)
           \<and> sender m = Chatbot \<and> chat m \<noteq> [] \<and> accessCheck db user (chat m) = None \<longrightarrow>
           fst (submitFeedback reg body user db) =
             AlreadyRated (case truthy (Message.armId m) of None \<Rightarrow> a | Some ma \<Rightarrow> ma) r fb"
    using assms(1,2)
    by (auto simp: submitFeedback_def resolveTarget_def gate Let_def truthy_def
        split: option.splits)
  from unchanged no_success rated show ?thesis by blast
qed

text \<open>
  The message \<^verbatim>\<open>m1\<close> is rated \<^verbatim>\<open>'up'\<close>; a second request for it, with reward 0, is answered
  \<^verbatim>\<open>already_rated\<close> with \<^verbatim>\<open>'up'\<close>, and the database is as before.
\<close>

theorem submitFeedback_already_rated_witness:
  "submitFeedback (ARMS None)
     \<lparr>arm_id = Some ''unified_base'', reward = Some 0, messageId = Some ''m1'', chatId = None\<rparr>
     exampleUser exampleDatabase
   = (AlreadyRated ''unified_base'' 0 Up, exampleDatabase)"
proof -
  let ?body = "\<lparr>arm_id = Some ''unified_base'', reward = Some 0, messageId = Some ''m1'',
                chatId = None\<rparr>"
  have named: "truthy (messageId ?body) = Some ''m1''" by (simp add: truthy_def)
  have msg: "messages exampleDatabase ''m1'' = Some exampleMessage"
    by (simp add: exampleDatabase_def)
  have rated: "feedback exampleMessage = Some Up" by (simp add: exampleMessage_def)
  have access: "accessCheck exampleDatabase exampleUser (chat exampleMessage) = None"
    by (simp add: accessCheck_def exampleDatabase_def exampleUser_def exampleMessage_def)
  note t = submitFeedback_already_rated[OF named msg rated, of "ARMS None" exampleUser]
  have "fst (submitFeedback (ARMS None) ?body exampleUser exampleDatabase)
      = AlreadyRated (case truthy (Message.armId exampleMessage) of
                        None \<Rightarrow> ''unified_base'' | Some ma \<Rightarrow> ma) 0 Up"
    using t[THEN conjunct2, THEN conjunct2, rule_format, of "''unified_base''" 0] access
    by (simp add: exampleMessage_def)
  moreover have "snd (submitFeedback (ARMS None) ?body exampleUser exampleDatabase)
      = exampleDatabase"
    using t[THEN conjunct1] .
  ultimately show ?thesis
    by (simp add: prod_eq_iff truthy_def exampleMessage_def)
qed

lemma loaded_complete:
  assumes "fst (getOrCreateBanditState reg c st) = Some arms"
  shows "missingArms reg arms = []"
proof (cases "docs st c")
  case None
  with assms have "arms = map defaultStats reg" by (simp add: getOrCreate_fresh)
  then show ?thesis by (auto simp: missingArms_def defaultStats_def filter_empty_conv)
next
  case (Some stored)
  with assms have "arms = stored @ map defaultStats (missingArms reg stored)"
    by (simp add: getOrCreate_stored)
  then show ?thesis by (simp add: missingArms_append)
qed

lemma armId_increment: "ArmStats.armId (increment r s) = ArmStats.armId s"
  by (simp add: increment_def Let_def)

lemma map_armId_updateFirst:
  "map ArmStats.armId (updateFirst P (increment r) xs) = map ArmStats.armId xs"
  by (induction xs) (auto simp: armId_increment)

lemma find_updateFirst:
  "find P xs = Some s \<Longrightarrow> P (f s) \<Longrightarrow> find P (updateFirst P f xs) = Some (f s)"
  by (induction xs) (auto split: if_splits)

lemma updateArm_then_load:
  assumes "fst (getOrCreateBanditState reg c st) = Some arms"
    and "find (\<lambda>a. ArmStats.armId a = aid) arms = Some s"
  shows "\<exists>arms'. updateArm reg c aid r st =
           (Inr (Some (alpha (increment r s), beta (increment r s), pulls (increment r s))),
            save (snd (getOrCreateBanditState reg c st)) c arms')
         \<and> fst (getOrCreateBanditState reg c (snd (updateArm reg c aid r st))) = Some arms'
         \<and> find (\<lambda>a. ArmStats.armId a = aid) arms' = Some (increment r s)"
proof -
  let ?P = "\<lambda>a. ArmStats.armId a = aid"
  let ?arms' = "updateFirst ?P (increment r) arms"
  obtain st1 where load: "getOrCreateBanditState reg c st = (Some arms, st1)"
    using assms(1) by (cases "getOrCreateBanditState reg c st") simp
  have res: "updateArm reg c aid r st =
      (Inr (Some (alpha (increment r s), beta (increment r s), pulls (increment r s))),
       save st1 c ?arms')"
    using assms(2) by (simp add: updateArm_def load Let_def)
  have "?P s" using assms(2) by (auto simp: find_Some_iff)
  then have found: "find ?P ?arms' = Some (increment r s)"
    using find_updateFirst[OF assms(2), of "increment r"] by (simp add: armId_increment)
  have "missingArms reg ?arms' = missingArms reg arms"
    by (simp add: missingArms_def map_armId_updateFirst)
  then have complete: "missingArms reg ?arms' = []"
    using loaded_complete[OF assms(1)] by simp
  have "docs (save st1 c ?arms') c = Some ?arms'" by (simp add: save_def)
  from getOrCreate_complete[OF this complete]
  have "fst (getOrCreateBanditState reg c (snd (updateArm reg c aid r st))) = Some ?arms'"
    by (simp add: res)
  with res found load show ?thesis by (intro exI[of _ ?arms']) simp
qed

lemma increment_funpow:
  "(increment r ^^ n) s =
     s\<lparr>alpha := alpha s + (if r = 1 then int n else 0),
       beta := beta s + (if r = 1 then 0 else int n),
       pulls := pulls s + int n\<rparr>"
  by (induction n) (auto simp: increment_def Let_def)

lemma accessCheck_bandit: "accessCheck (db\<lparr>bandit := st\<rparr>) user c = accessCheck db user c"
  by (simp add: accessCheck_def cong: option.case_cong)

lemma submitFeedback_chat_path:
  assumes "truthy (messageId body) = None"
    and "truthy (chatId body) = Some cid"
    and "arm_id body = Some aid" and "aid \<noteq> []"
    and "reward body = Some r" and "r = 0 \<or> r = 1"
    and "accessCheck db user cid = None"
  shows "submitFeedback reg body user db =
     (case updateArm reg cid aid r (bandit db) of
        (Inl err, st) \<Rightarrow> (Error 500 ''TypeError'', db\<lparr>bandit := st\<rparr>)
      | (Inr newStats, st) \<Rightarrow> (Success aid r cid newStats, db\<lparr>bandit := st\<rparr>))"
  using assms
  by (auto simp: submitFeedback_def resolveTarget_def claimFeedback_def Let_def)

lemma submitFeedback_no_gate:
  assumes "truthy (messageId body) = None"
  shows "fst (submitFeedback reg body user db) \<noteq> AlreadyRated a r f"
  using assms
  by (auto simp: submitFeedback_def claimFeedback_def Let_def
      split: option.splits sum.splits prod.splits
      dest: resolveTarget_error accessCheck_error)

lemma submitFeedback_chat_path_iterated:
  assumes "truthy (messageId body) = None"
    and "truthy (chatId body) = Some cid"
    and "arm_id body = Some aid" and "aid \<noteq> []"
    and "reward body = Some r" and "r = 0 \<or> r = 1"
    and "accessCheck db user cid = None"
    and "fst (getOrCreateBanditState reg cid (bandit db)) = Some arms"
    and "find (\<lambda>a. ArmStats.armId a = aid) arms = Some s"
  shows "accessCheck (((\<lambda>d. snd (submitFeedback reg body user d)) ^^ n) db) user cid = None
     \<and> messages (((\<lambda>d. snd (submitFeedback reg body user d)) ^^ n) db) = messages db
     \<and> (\<exists>arms_n.
           fst (getOrCreateBanditState reg cid
                  (bandit (((\<lambda>d. snd (submitFeedback reg body user d)) ^^ n) db))) = Some arms_n
           \<and> (0 < n \<longrightarrow>
                docs (bandit (((\<lambda>d. snd (submitFeedback reg body user d)) ^^ n) db)) cid
                  = Some arms_n)
           \<and> find (\<lambda>a. ArmStats.armId a = aid) arms_n = Some ((increment r ^^ n) s))"
proof (induction n)
  case 0
  with assms show ?case by simp
next
  case (Suc n)
  let ?d = "((\<lambda>d. snd (submitFeedback reg body user d)) ^^ n) db"
  from Suc.IH obtain arms_n where
    access: "accessCheck ?d user cid = None"
    and msgs: "messages ?d = messages db"
    and load: "fst (getOrCreateBanditState reg cid (bandit ?d)) = Some arms_n"
    and found: "find (\<lambda>a. ArmStats.armId a = aid) arms_n = Some ((increment r ^^ n) s)"
    by blast
  from updateArm_then_load[OF load found, of r] obtain arms' where
    upd: "updateArm reg cid aid r (bandit ?d) =
      (Inr (Some (alpha (increment r ((increment r ^^ n) s)),
                  beta (increment r ((increment r ^^ n) s)),
                  pulls (increment r ((increment r ^^ n) s)))),
       save (snd (getOrCreateBanditState reg cid (bandit ?d))) cid arms')"
    and load': "fst (getOrCreateBanditState reg cid
        (snd (updateArm reg cid aid r (bandit ?d)))) = Some arms'"
    and found': "find (\<lambda>a. ArmStats.armId a = aid) arms' = Some (increment r ((increment r ^^ n) s))"
    by blast
  have step: "snd (submitFeedback reg body user ?d) =
      ?d\<lparr>bandit := snd (updateArm reg cid aid r (bandit ?d))\<rparr>"
    using submitFeedback_chat_path[OF assms(1-6) access, of reg] upd by simp
  have stored: "docs (snd (updateArm reg cid aid r (bandit ?d))) cid = Some arms'"
    using upd by (simp add: save_def)
  show ?case
    using access msgs load' found' stored
    by (simp add: step accessCheck_bandit)
qed

text \<open>
  C4. A feedback request without \<^verbatim>\<open>messageId\<close> is never answered \<^verbatim>\<open>already_rated\<close>,
  whatever else it contains, by whomever and on whatever database it is made. When such a request names a chat and an
  arm of the chat's state, has reward 0 or 1 and passes the access check, then repeating
  it counts every time: for every \<open>n\<close> the request made after \<open>n\<close> earlier identical ones is
  answered \<^verbatim>\<open>success\<close> with the arm's \<^verbatim>\<open>pulls\<close> at the initial value plus \<open>n + 1\<close> and its
  \<^verbatim>\<open>alpha\<close> (reward 1) or \<^verbatim>\<open>beta\<close> (reward 0) likewise, these are the statistics stored for
  the arm afterwards, and no message is changed.
\<close>

theorem submitFeedback_without_messageId_counts_every_time:
  assumes "truthy (messageId body) = None"
    and "truthy (chatId body) = Some cid"
    and "arm_id body = Some aid" and "aid \<noteq> []"
    and "reward body = Some r" and "r = 0 \<or> r = 1"
    and "accessCheck db user cid = None"
    and "fst (getOrCreateBanditState reg cid (bandit db)) = Some arms"
    and "find (\<lambda>a. ArmStats.armId a = aid) arms = Some s"
  shows "(\<forall>body' user' db' a' r' f. truthy (messageId body') = None \<longrightarrow>
            fst (submitFeedback reg body' user' db') \<noteq> AlreadyRated a' r' f)
     \<and> (\<forall>n. fst (submitFeedback reg body user
                  (((\<lambda>d. snd (submitFeedback reg body user d)) ^^ n) db)) =
              Success aid r cid
                (Some (alpha s + (if r = 1 then int n + 1 else 0),
                       beta s + (if r = 1 then 0 else int n + 1),
                       pulls s + int n + 1)))
     \<and> (\<forall>n. \<exists>arms_n.
              docs (bandit (((\<lambda>d. snd (submitFeedback reg body user d)) ^^ Suc n) db)) cid
                = Some arms_n
              \<and> find (\<lambda>a. ArmStats.armId a = aid) arms_n =
                  Some (s\<lparr>alpha := alpha s + (if r = 1 then int n + 1 else 0),
                          beta := beta s + (if r = 1 then 0 else int n + 1),
                          pulls := pulls s + int n + 1\<rparr>))
     \<and> (\<forall>n. messages (((\<lambda>d. snd (submitFeedback reg body user d)) ^^ n) db) = messages db)"
proof -
  let ?step = "\<lambda>d. snd (submitFeedback reg body user d)"
  note iter = submitFeedback_chat_path_iterated[OF assms]
  have no_gate: "\<forall>body' user' db' a' r' f. truthy (messageId body') = None \<longrightarrow>
      fst (submitFeedback reg body' user' db') \<noteq> AlreadyRated a' r' f"
    using submitFeedback_no_gate by blast
  have answer: "fst (submitFeedback reg body user ((?step ^^ n) db)) =
      Success aid r cid
        (Some (alpha s + (if r = 1 then int n + 1 else 0),
               beta s + (if r = 1 then 0 else int n + 1),
               pulls s + int n + 1))" for n
  proof -
    from iter[of n] obtain arms_n where
      access: "accessCheck ((?step ^^ n) db) user cid = None"
      and load: "fst (getOrCreateBanditState reg cid (bandit ((?step ^^ n) db))) = Some arms_n"
      and found: "find (\<lambda>a. ArmStats.armId a = aid) arms_n = Some ((increment r ^^ n) s)"
      by blast
    from updateArm_then_load[OF load found, of r] obtain arms' where
      upd: "updateArm reg cid aid r (bandit ((?step ^^ n) db)) =
        (Inr (Some (alpha (increment r ((increment r ^^ n) s)),
                    beta (increment r ((increment r ^^ n) s)),
                    pulls (increment r ((increment r ^^ n) s)))),
         save (snd (getOrCreateBanditState reg cid (bandit ((?step ^^ n) db)))) cid arms')"
      by blast
    have "increment r ((increment r ^^ n) s) = (increment r ^^ Suc n) s" by simp
    then show ?thesis
      using submitFeedback_chat_path[OF assms(1-6) access, of reg] upd
      by (simp only: increment_funpow) (simp split: if_splits)
  qed
  have stored: "\<exists>arms_n. docs (bandit ((?step ^^ Suc n) db)) cid = Some arms_n
      \<and> find (\<lambda>a. ArmStats.armId a = aid) arms_n =
          Some (s\<lparr>alpha := alpha s + (if r = 1 then int n + 1 else 0),
                  beta := beta s + (if r = 1 then 0 else int n + 1),
                  pulls := pulls s + int n + 1\<rparr>)" for n
  proof -
    from iter[of "Suc n"] obtain arms_n where
      "docs (bandit ((?step ^^ Suc n) db)) cid = Some arms_n"
      "find (\<lambda>a. ArmStats.armId a = aid) arms_n = Some ((increment r ^^ Suc n) s)"
      by blast
    then show ?thesis
      by (intro exI[of _ arms_n]) (simp only: increment_funpow, simp add: add.assoc)
  qed
  have msgs: "messages ((?step ^^ n) db) = messages db" for n
    using iter[of n] by blast
  from no_gate answer stored msgs show ?thesis by blast
qed

text \<open>
  The arm \<^verbatim>\<open>unified_base\<close> of chat \<^verbatim>\<open>c1\<close> is at (2, 1, 1). The same request with
  \<^verbatim>\<open>chatId\<close> and reward 1, made for the third time, is answered \<^verbatim>\<open>success\<close> with (5, 1, 4).
\<close>

theorem submitFeedback_without_messageId_counts_every_time_witness:
  "fst (submitFeedback (ARMS None)
          \<lparr>arm_id = Some ''unified_base'', reward = Some 1, messageId = None,
           chatId = Some ''c1''\<rparr>
          exampleUser
          (((\<lambda>d. snd (submitFeedback (ARMS None)
                         \<lparr>arm_id = Some ''unified_base'', reward = Some 1, messageId = None,
                          chatId = Some ''c1''\<rparr>
                         exampleUser d)) ^^ 2) exampleDatabase))
   = Success ''unified_base'' 1 ''c1'' (Some (5, 1, 4))"
proof -
  let ?body = "\<lparr>arm_id = Some ''unified_base'', reward = Some 1, messageId = None,
                chatId = Some ''c1''\<rparr>"
  let ?a = "\<lparr>ArmStats.armId = ''unified_base'', alpha = 2, beta = 1, pulls = 1\<rparr>"
  let ?b = "\<lparr>ArmStats.armId = ''unified_strict_json'', alpha = 1, beta = 1, pulls = 0\<rparr>"
  have h1: "truthy (messageId ?body) = None" by (simp add: truthy_def)
  have h2: "truthy (chatId ?body) = Some ''c1''" by (simp add: truthy_def)
  have h3: "arm_id ?body = Some ''unified_base''" by simp
  have h4: "''unified_base'' \<noteq> []" by simp
  have h5: "reward ?body = Some 1" by simp
  have h6: "(1::int) = 0 \<or> (1::int) = 1" by simp
  have h7: "accessCheck exampleDatabase exampleUser ''c1'' = None"
    by (simp add: accessCheck_def exampleDatabase_def exampleUser_def)
  have stored: "docs (bandit exampleDatabase) ''c1'' = Some [?a, ?b]"
    by (simp add: exampleDatabase_def)
  have complete: "missingArms (ARMS None) [?a, ?b] = []"
    by (simp add: missingArms_def ARMS_def)
  have h8: "fst (getOrCreateBanditState (ARMS None) ''c1'' (bandit exampleDatabase))
      = Some [?a, ?b]"
    using getOrCreate_complete[OF stored complete] by simp
  have h9: "find (\<lambda>a. ArmStats.armId a = ''unified_base'') [?a, ?b] = Some ?a" by simp
  note t = submitFeedback_without_messageId_counts_every_time
             [OF h1 h2 h3 h4 h5 h6 h7 h8 h9]
  from t[THEN conjunct2, THEN conjunct1, rule_format, of 2] show ?thesis by simp
qed

end
